theory Spec2Isabelle
  imports Main
begin

section \<open>Instructions and syntax nodes\<close>

text \<open>The enumeration \<open>Instruction\<close> of \<open>instruction.py\<close>.\<close>

datatype Instruction =
  Add | Negate | LambdaParams | Defun | Unknown | Module | Mult | String1 | Setf | Lambda
  | NumberConstant

text \<open>
  The class \<open>AstNode\<close> of \<open>astnode.py\<close>. The field \<open>operands\<close> is declared as a list
  whose elements are nodes or literal strings; the parser also stores a bare node there
  (\<open>AstNode(Instruction.Negate, k)\<close>), which is the constructor \<open>Bare\<close>. The fields
  \<open>bound_variables\<close> and \<open>text_indices\<close> keep their defaults in every function modelled
  here and are left out.
\<close>

datatype AstNode = AstNode Instruction operands
and operands = Ops "operand list" | Bare AstNode
and operand = Sub AstNode | Tok string

text \<open>The exceptions the modelled functions can raise.\<close>

datatype error =
  AssertionError | IndexError | TypeError | KeyError | RuntimeError | AttributeError
  | RecursionError | NoCaseMatched

section \<open>Lexer (\<open>parser.py\<close>)\<close>

text \<open>
  One iteration of the loop of \<open>lexer\<close>: the state is the list \<open>words\<close> and the string
  \<open>current_word\<close>.
\<close>

fun lexer_step :: "string list \<times> string \<Rightarrow> char \<Rightarrow> string list \<times> string" where
  "lexer_step (words, current_word) c =
     (if c = CHR '' '' then (words @ [current_word], [])
      else if c = CHR ''('' \<or> c = CHR '')'' then (words @ [current_word] @ [[c]], [])
      else (words, current_word @ [c]))"

text \<open>
  \<open>lexer\<close>: the loop over the characters, then the filter that drops the empty words.
  The word being built when the input ends is not appended.
\<close>

definition lexer :: "string \<Rightarrow> string list" where
  "lexer str = filter (\<lambda>k. k \<noteq> []) (fst (foldl lexer_step ([], []) str))"

text \<open>\<open>" ".join(tokens)\<close>.\<close>

fun join_spaces :: "string list \<Rightarrow> string" where
  "join_spaces [] = []"
| "join_spaces [w] = w"
| "join_spaces (w # v # ws) = w @ '' '' @ join_spaces (v # ws)"

section \<open>Parser (\<open>parser.py\<close>)\<close>

text \<open>\<open>c.isdigit()\<close> on the ASCII range.\<close>

definition isdigit :: "char \<Rightarrow> bool" where
  "isdigit c = (c \<in> set ''0123456789'')"

definition is_number :: "string \<Rightarrow> bool" where
  "is_number a = list_all (\<lambda>c. isdigit c \<or> c = CHR ''.'') a"

text \<open>\<open>functools.reduce\<close> without an initial value: a \<open>TypeError\<close> on the empty list.\<close>

fun reduce :: "('a \<Rightarrow> 'a \<Rightarrow> 'a) \<Rightarrow> 'a list \<Rightarrow> error + 'a" where
  "reduce f [] = Inl TypeError"
| "reduce f (x # xs) = Inr (foldl f x xs)"

text \<open>\<open>token_result[1:] = list(map(lambda k: AstNode(Instruction.Negate, k), token_result[1:]))\<close>.\<close>

fun negate_tail :: "AstNode list \<Rightarrow> AstNode list" where
  "negate_tail [] = []"
| "negate_tail (x # xs) = x # map (\<lambda>k. AstNode Negate (Bare k)) xs"

text \<open>
  The check \<open>assert next[0] == ')'\<close>: an \<open>IndexError\<close> on the empty list, an
  \<open>AssertionError\<close> on another first token.
\<close>

fun assert_close :: "string list \<Rightarrow> error option" where
  "assert_close [] = Some IndexError"
| "assert_close (n # ns) = (if n = '')'' then None else Some AssertionError)"

text \<open>
  \<open>parser\<close> and \<open>take_until\<close>. On the empty token list no case of \<open>parser\<close> matches and
  Python returns \<open>None\<close>, which is \<open>NoCaseMatched\<close> here.
\<close>

function parser :: "string list \<Rightarrow> error + (AstNode \<times> string list)"
  and take_until :: "string list \<Rightarrow> string \<Rightarrow> error + (AstNode list \<times> string list)"
where
  "parser [] = Inl NoCaseMatched"
| "parser (t # rest) =
     (if t = ''('' then
        (case take_until rest '')'' of
           Inl e \<Rightarrow> Inl e
         | Inr (total_result, next) \<Rightarrow>
             (case assert_close next of
                Some e \<Rightarrow> Inl e
              | None \<Rightarrow> Inr (AstNode Unknown (Ops (map Sub total_result)), tl next)))
      else if t = ''+'' then
        (case take_until rest '')'' of
           Inl e \<Rightarrow> Inl e
         | Inr (token_result, next) \<Rightarrow>
             (case assert_close next of
                Some e \<Rightarrow> Inl e
              | None \<Rightarrow>
                  (case reduce (\<lambda>k1 k2. AstNode Add (Ops [Sub k1, Sub k2])) token_result of
                     Inl e \<Rightarrow> Inl e
                   | Inr r \<Rightarrow> Inr (r, next))))
      else if t = ''-'' then
        (case take_until rest '')'' of
           Inl e \<Rightarrow> Inl e
         | Inr (token_result, next) \<Rightarrow>
             (case assert_close next of
                Some e \<Rightarrow> Inl e
              | None \<Rightarrow>
                  (case reduce (\<lambda>k1 k2. AstNode Add (Ops [Sub k1, Sub k2]))
                          (negate_tail token_result) of
                     Inl e \<Rightarrow> Inl e
                   | Inr r \<Rightarrow> Inr (r, next))))
      else if t = ''*'' then
        (case take_until rest '')'' of
           Inl e \<Rightarrow> Inl e
         | Inr (token_result, next) \<Rightarrow>
             (case assert_close next of
                Some e \<Rightarrow> Inl e
              | None \<Rightarrow>
                  (case reduce (\<lambda>k1 k2. AstNode Mult (Ops [Sub k1, Sub k2])) token_result of
                     Inl e \<Rightarrow> Inl e
                   | Inr r \<Rightarrow> Inr (r, next))))
      else if is_number t then Inr (AstNode NumberConstant (Ops [Tok t]), rest)
      else Inr (AstNode String1 (Ops [Tok t]), rest))"
| "take_until [] until = Inr ([], [])"
| "take_until (n # ns) until =
     (if n \<noteq> until then
        (case parser (n # ns) of
           Inl e \<Rightarrow> Inl e
         | Inr (result, next) \<Rightarrow>
             (case take_until next until of
                Inl e \<Rightarrow> Inl e
              | Inr (total_result, next') \<Rightarrow> Inr (result # total_result, next')))
      else Inr ([], n # ns))"
  by pat_completeness auto

text \<open>
  Termination: whenever \<open>parser\<close> returns, it has consumed at least one token, so the
  loop of \<open>take_until\<close> runs on an ever shorter token list.
\<close>

lemma assert_close_None: "assert_close nx = None \<Longrightarrow> nx \<noteq> []"
  by (cases nx) auto

lemma parser_length:
  "parser_take_until_dom (Inl ts) \<Longrightarrow> parser ts = Inr (r, ts') \<Longrightarrow> length ts' < length ts"
  "parser_take_until_dom (Inr (us, u)) \<Longrightarrow> take_until us u = Inr (rs, us')
     \<Longrightarrow> length us' \<le> length us"
proof (induction ts and us u arbitrary: r ts' and rs us' rule: parser_take_until.pinduct)
  case 1
  then show ?case by (simp add: parser.psimps)
next
  case (2 t rest)
  have tu: "\<And>a b. take_until rest '')'' = Inr (a, b)
      \<Longrightarrow> t = ''('' \<or> t = ''+'' \<or> t = ''-'' \<or> t = ''*'' \<Longrightarrow> length b \<le> length rest"
    using "2.IH" by blast
  from "2.prems" show ?case
    apply (simp only: parser.psimps(2) [OF "2.hyps"])
    apply (auto split: if_splits sum.splits prod.splits option.splits
                dest!: tu assert_close_None)
    done
next
  case (3 until)
  then show ?case by (simp add: take_until.psimps)
next
  case (4 n ns until)
  show ?case
  proof (cases "n = until")
    case True
    with "4.prems" take_until.psimps(2) [OF "4.hyps"] show ?thesis by auto
  next
    case False
    from "4.prems" False obtain result nxt total where
      p: "parser (n # ns) = Inr (result, nxt)" and
      t: "take_until nxt until = Inr (total, us')"
      by (simp add: take_until.psimps(2) [OF "4.hyps"] split: sum.splits prod.splits)
    from "4.IH"(1) [OF False p] have "length nxt < length (n # ns)" .
    moreover from "4.IH"(2) [OF False p refl t] have "length us' \<le> length nxt" .
    ultimately show ?thesis by simp
  qed
qed

termination parser
proof (relation "measure (\<lambda>x. case x of Inl ts \<Rightarrow> 2 * length ts
                                      | Inr (ts, u) \<Rightarrow> 2 * length ts + 1)", goal_cases)
  case 1 show ?case by simp
next
  case 2 then show ?case by simp
next
  case 3 then show ?case by simp
next
  case 4 then show ?case by simp
next
  case 5 then show ?case by simp
next
  case 6 then show ?case by simp
next
  case (7 n ns until x2 x y)
  then show ?case using parser_length(1) [of "n # ns" x y] by simp
qed

text \<open>The same bound for the total functions.\<close>

lemma parser_shorter:
  "parser ts = Inr (r, ts') \<Longrightarrow> length ts' < length ts"
  "take_until us u = Inr (rs, us') \<Longrightarrow> length us' \<le> length us"
proof (induction ts and us u arbitrary: r ts' and rs us' rule: parser_take_until.induct)
  case 1
  then show ?case by simp
next
  case (2 t rest)
  have tu: "\<And>a b. take_until rest '')'' = Inr (a, b)
      \<Longrightarrow> t = ''('' \<or> t = ''+'' \<or> t = ''-'' \<or> t = ''*'' \<Longrightarrow> length b \<le> length rest"
    using "2.IH" by blast
  from "2.prems" show ?case
    apply (simp only: parser.simps(2))
    apply (auto split: if_splits sum.splits prod.splits option.splits
                dest!: tu assert_close_None)
    done
next
  case (3 until)
  then show ?case by simp
next
  case (4 n ns until)
  show ?case
  proof (cases "n = until")
    case True
    with "4.prems" show ?thesis by auto
  next
    case False
    from "4.prems" False obtain result nxt total where
      p: "parser (n # ns) = Inr (result, nxt)" and
      t: "take_until nxt until = Inr (total, us')"
      by (simp split: sum.splits prod.splits)
    from "4.IH"(1) [OF False p] have "length nxt < length (n # ns)" .
    moreover from "4.IH"(2) [OF False p refl t] have "length us' \<le> length nxt" .
    ultimately show ?thesis by simp
  qed
qed

text \<open>\<open>parse_all\<close>: the top-level driver.\<close>

function parse_all :: "string list \<Rightarrow> error + AstNode list" where
  "parse_all a =
     (if a = [] then Inr []
      else (case parser a of
              Inl e \<Rightarrow> Inl e
            | Inr (a', next) \<Rightarrow>
                (case parse_all next of Inl e \<Rightarrow> Inl e | Inr rest \<Rightarrow> Inr (a' # rest))))"
  by pat_completeness auto

termination
proof (relation "measure length", goal_cases)
  case 1 show ?case by simp
next
  case (2 a x2 x y)
  then show ?case using parser_shorter(1) [of a x y] by simp
qed

section \<open>Desugarer (\<open>flatten_tree\<close> in \<open>parser.py\<close>)\<close>

text \<open>The decimal form of a natural number, as the f-string \<open>f"Lambda-{name_counter}"\<close> prints it.\<close>

definition digit_char :: "nat \<Rightarrow> char" where
  "digit_char n = ''0123456789'' ! n"

fun str_of_nat :: "nat \<Rightarrow> string" where
  "str_of_nat n = (if n < 10 then [digit_char n] else str_of_nat (n div 10) @ [digit_char (n mod 10)])"

declare str_of_nat.simps [simp del]

text \<open>
  \<open>gen_random_name\<close>: the global \<open>name_counter\<close> is passed in and returned. It is
  incremented before it is used.
\<close>

definition gen_random_name :: "nat \<Rightarrow> operand \<times> nat" where
  "gen_random_name name_counter =
     (Sub (AstNode String1 (Ops [Tok (''Lambda-'' @ str_of_nat (name_counter + 1))])),
      name_counter + 1)"

text \<open>
  The sub-patterns of \<open>flatten_tree\<close>: \<open>AstNode(Instruction.String1, ["lambda"])\<close> and
  \<open>AstNode(Instruction.String1, ["defun"])\<close>, \<open>AstNode(Instruction.String1, [_])\<close>,
  and \<open>AstNode(Instruction.Unknown, [*lambda_params])\<close>.
\<close>

definition is_keyword :: "string \<Rightarrow> operand \<Rightarrow> bool" where
  "is_keyword kw x = (x = Sub (AstNode String1 (Ops [Tok kw])))"

fun is_name :: "operand \<Rightarrow> bool" where
  "is_name (Sub (AstNode String1 (Ops [_]))) = True"
| "is_name _ = False"

fun params_of :: "operand \<Rightarrow> operand list option" where
  "params_of (Sub (AstNode Unknown (Ops ps))) = Some ps"
| "params_of _ = None"

text \<open>
  \<open>assert all((param.instr == Instruction.String1 for param in lambda_params))\<close>: a
  string among the parameters has no attribute \<open>instr\<close>.
\<close>

fun check_params :: "operand list \<Rightarrow> error option" where
  "check_params [] = None"
| "check_params (Tok _ # ps) = Some AttributeError"
| "check_params (Sub (AstNode i _) # ps) =
     (if i = String1 then check_params ps else Some AssertionError)"

text \<open>
  The inner \<open>match uk_node.operands\<close> of \<open>flatten_tree\<close>: the new \<open>instr\<close> and
  \<open>operands\<close> of the node, and the name counter.
\<close>

definition desugar :: "operand list \<Rightarrow> nat \<Rightarrow> error + (Instruction \<times> operand list \<times> nat)" where
  "desugar ops c =
     (case ops of
        [kw, ps, fn_body] \<Rightarrow>
          (if is_keyword ''lambda'' kw then
             (case params_of ps of
                Some lambda_params \<Rightarrow>
                  (case check_params lambda_params of
                     Some e \<Rightarrow> Inl e
                   | None \<Rightarrow>
                       (case gen_random_name c of
                          (nm, c') \<Rightarrow>
                            Inr (Defun,
                                 [nm, Sub (AstNode LambdaParams (Ops lambda_params)), fn_body],
                                 c')))
              | None \<Rightarrow> Inr (Unknown, ops, c))
           else Inr (Unknown, ops, c))
      | [kw, fn_name, ps, fn_body] \<Rightarrow>
          (if is_keyword ''defun'' kw \<and> is_name fn_name then
             (case params_of ps of
                Some lambda_params \<Rightarrow>
                  Inr (Defun,
                       [fn_name, Sub (AstNode LambdaParams (Ops lambda_params)), fn_body], c)
              | None \<Rightarrow> Inr (Unknown, ops, c))
           else Inr (Unknown, ops, c))
      | _ \<Rightarrow> Inr (Unknown, ops, c))"

text \<open>The pattern \<open>[AstNode() as curry_type_node]\<close>.\<close>

fun sole_node :: "operands \<Rightarrow> AstNode option" where
  "sole_node (Ops [Sub n]) = Some n"
| "sole_node _ = None"

text \<open>
  \<open>flatten_tree\<close>, with the name counter passed through. The source updates the node
  in place and returns it; no node is shared in a tree, so the updated node is returned
  as a value. \<open>flatten_operands\<close> is the last statement's
  \<open>list(map(lambda k: flatten_tree(k), node.operands))\<close>: a string operand has no
  attribute \<open>operands\<close>, and a bare node in place of the operand list is not iterable.
\<close>

function flatten_tree :: "AstNode \<Rightarrow> nat \<Rightarrow> error + (AstNode \<times> nat)"
  and flatten_operands :: "operand list \<Rightarrow> nat \<Rightarrow> error + (operand list \<times> nat)"
where
  "flatten_tree (AstNode instr opnds) c =
     (if instr = NumberConstant \<or> instr = String1 then Inr (AstNode instr opnds, c)
      else if instr = Unknown \<and> sole_node opnds \<noteq> None then
        flatten_tree (the (sole_node opnds)) c
      else
        (case opnds of
           Bare _ \<Rightarrow> Inl TypeError
         | Ops ks \<Rightarrow>
             (case (if instr = Unknown then desugar ks c else Inr (instr, ks, c)) of
                Inl e \<Rightarrow> Inl e
              | Inr (instr', ks', c') \<Rightarrow>
                  (case flatten_operands ks' c' of
                     Inl e \<Rightarrow> Inl e
                   | Inr (ks'', c'') \<Rightarrow> Inr (AstNode instr' (Ops ks''), c'')))))"
| "flatten_operands [] c = Inr ([], c)"
| "flatten_operands (Tok s # ks) c = Inl AttributeError"
| "flatten_operands (Sub n # ks) c =
     (case flatten_tree n c of
        Inl e \<Rightarrow> Inl e
      | Inr (n', c') \<Rightarrow>
          (case flatten_operands ks c' of
             Inl e \<Rightarrow> Inl e
           | Inr (ks', c'') \<Rightarrow> Inr (Sub n' # ks', c'')))"
  by pat_completeness auto

lemma params_of_size: "params_of ps = Some l \<Longrightarrow> size ps = size_list size l + 3"
  by (erule params_of.elims) auto

lemma desugar_size:
  assumes "desugar ks c = Inr (i, ks', c')"
  shows "size_list size ks' \<le> size_list size ks"
proof (cases ks)
  case Nil
  with assms show ?thesis by (simp add: desugar_def)
next
  case (Cons k1 r1)
  show ?thesis
  proof (cases r1)
    case Nil
    with assms Cons show ?thesis by (simp add: desugar_def)
  next
    case (Cons k2 r2)
    note c2 = this
    show ?thesis
    proof (cases r2)
      case Nil
      with assms \<open>ks = k1 # r1\<close> c2 show ?thesis by (simp add: desugar_def)
    next
      case (Cons k3 r3)
      note c3 = this
      show ?thesis
      proof (cases r3)
        case Nil
        with assms \<open>ks = k1 # r1\<close> c2 c3 show ?thesis
          by (auto simp: desugar_def is_keyword_def gen_random_name_def
                   split: if_splits option.splits dest!: params_of_size)
      next
        case (Cons k4 r4)
        note c4 = this
        show ?thesis
        proof (cases r4)
          case Nil
          with assms \<open>ks = k1 # r1\<close> c2 c3 c4 show ?thesis
            by (auto simp: desugar_def split: if_splits option.splits dest!: params_of_size)
        next
          case (Cons k5 r5)
          with assms \<open>ks = k1 # r1\<close> c2 c3 c4 show ?thesis by (simp add: desugar_def)
        qed
      qed
    qed
  qed
qed

lemma sole_node_size: "sole_node opnds = Some n \<Longrightarrow> size n < size opnds"
  by (erule sole_node.elims) auto

termination flatten_tree
proof (relation "measure (\<lambda>x. case x of Inl (n, c) \<Rightarrow> size n
                                      | Inr (ks, c) \<Rightarrow> size_list size ks)", goal_cases)
  case 1 show ?case by simp
next
  case (2 instr opnds c)
  then show ?case using sole_node_size [of opnds] by auto
next
  case (3 instr opnds c ks x2 x y xa ya)
  then show ?case using desugar_size [of ks c x xa ya] by (auto split: if_splits)
next
  case 4 then show ?case by simp
next
  case 5 then show ?case by simp
qed

section \<open>Errors as values\<close>

text \<open>Sequencing of fallible steps: an exception ends the computation.\<close>

definition bindE :: "error + 'a \<Rightarrow> ('a \<Rightarrow> error + 'b) \<Rightarrow> error + 'b" where
  "bindE m f = (case m of Inl e \<Rightarrow> Inl e | Inr x \<Rightarrow> f x)"

lemma bindE_simps [simp]:
  "bindE (Inl e) f = Inl e"
  "bindE (Inr x) f = f x"
  by (simp_all add: bindE_def)

section \<open>Types as mutable objects (\<open>type.py\<close>)\<close>

text \<open>
  A \<open>Type\<close> is a mutable object: \<open>Type.set\<close> overwrites its field \<open>type\<close> in place, and
  the same object can be an element of several tuples. Objects therefore live in a heap
  and are named by their address. The field \<open>type\<close> is a string (\<open>Str\<close>) or a list
  (\<open>Lst\<close>) whose elements are \<open>Type\<close> objects or \<open>None\<close> (\<open>type_annotator\<close> returns
  \<open>None\<close> for a node that matches none of its cases). No list is ever updated in place,
  so a cell holds the list of element references itself.
\<close>

type_synonym addr = nat

datatype cell = Str string | Lst "addr option list"

type_synonym heap = "cell list"

text \<open>
  Every address comes from an allocation, so it lies inside the heap; the value chosen
  outside the heap is never read.
\<close>

definition cell_at :: "heap \<Rightarrow> addr \<Rightarrow> cell" where
  "cell_at h a = (if a < length h then h ! a else Str [])"

text \<open>A new object: its address and the extended heap.\<close>

definition alloc :: "heap \<Rightarrow> cell \<Rightarrow> addr \<times> heap" where
  "alloc h c = (length h, h @ [c])"

text \<open>
  The functions on types recurse through the heap, which may hold cycles (\<open>Type.set\<close>
  can create them), and \<open>unify_vars\<close> follows the substitution map, which may hold
  cycles too. Python ends such a recursion with a \<open>RecursionError\<close> when the call stack
  reaches its limit. The first argument \<open>d\<close> of the functions below is the number of
  stack frames that are left: a call that would need a frame when none is left raises
  \<open>RecursionError\<close>, and every call passes one frame less to its callees.
\<close>

text \<open>
  Comparison of two lists of elements: the lengths are equal here. An element is equal
  to itself without a call of \<open>__eq__\<close> (the identity shortcut of list comparison), \<open>None\<close>
  is equal only to \<open>None\<close>, and the comparison stops at the first unequal pair.
\<close>

fun elems_eq :: "(addr \<Rightarrow> addr \<Rightarrow> error + bool) \<Rightarrow> addr option list \<Rightarrow> addr option list
    \<Rightarrow> error + bool" where
  "elems_eq eq (x # xs) (y # ys) =
     bindE (if x = y then Inr True
            else (case (x, y) of (Some a, Some b) \<Rightarrow> eq a b | _ \<Rightarrow> Inr False))
       (\<lambda>r. if r then elems_eq eq xs ys else Inr False)"
| "elems_eq eq _ _ = Inr True"

text \<open>
  \<open>Type.__eq__\<close>, generated by \<open>@dataclass\<close>: structural equality of the fields \<open>type\<close>.
\<close>

primrec type_eq :: "nat \<Rightarrow> heap \<Rightarrow> addr \<Rightarrow> addr \<Rightarrow> error + bool" where
  "type_eq 0 h a b = Inl RecursionError"
| "type_eq (Suc d) h a b =
     (case (cell_at h a, cell_at h b) of
        (Str s, Str t) \<Rightarrow> Inr (s = t)
      | (Lst xs, Lst ys) \<Rightarrow>
          (if length xs \<noteq> length ys then Inr False else elems_eq (type_eq d h) xs ys)
      | _ \<Rightarrow> Inr False)"

text \<open>
  \<open>all((u.is_base_type() for u in t if isinstance(u, Type)))\<close>: elements that are no
  \<open>Type\<close> are skipped, and \<open>all\<close> stops at the first \<open>False\<close>.
\<close>

fun all_base :: "(addr \<Rightarrow> error + bool) \<Rightarrow> addr option list \<Rightarrow> error + bool" where
  "all_base f [] = Inr True"
| "all_base f (None # us) = all_base f us"
| "all_base f (Some u # us) = bindE (f u) (\<lambda>r. if r then all_base f us else Inr False)"

text \<open>\<open>Type.is_base_type\<close>.\<close>

primrec is_base_type :: "nat \<Rightarrow> heap \<Rightarrow> addr \<Rightarrow> error + bool" where
  "is_base_type 0 h a = Inl RecursionError"
| "is_base_type (Suc d) h a =
     (case cell_at h a of
        Str s \<Rightarrow> Inr (s = ''float'' \<or> s = ''int'' \<or> s = ''void'')
      | Lst t \<Rightarrow> all_base (is_base_type d h) t)"

text \<open>
  \<open>copy.deepcopy\<close> of a \<open>Type\<close>. The memo maps every object already copied to its copy,
  so sharing inside the copied structure is kept. A new object enters the memo before
  its elements are copied; its field is set afterwards. \<open>None\<close> is copied as itself.
\<close>

type_synonym memo = "addr \<rightharpoonup> addr"

fun copy_elems :: "(addr \<Rightarrow> heap \<times> memo \<Rightarrow> error + (addr \<times> heap \<times> memo)) \<Rightarrow> addr option list
    \<Rightarrow> heap \<times> memo \<Rightarrow> error + (addr option list \<times> heap \<times> memo)" where
  "copy_elems f [] st = Inr ([], st)"
| "copy_elems f (None # xs) st =
     bindE (copy_elems f xs st) (\<lambda>(ys, st'). Inr (None # ys, st'))"
| "copy_elems f (Some x # xs) st =
     bindE (f x st) (\<lambda>(y, st').
       bindE (copy_elems f xs st') (\<lambda>(ys, st''). Inr (Some y # ys, st'')))"

primrec deepcopy :: "nat \<Rightarrow> addr \<Rightarrow> heap \<times> memo \<Rightarrow> error + (addr \<times> heap \<times> memo)" where
  "deepcopy 0 a st = Inl RecursionError"
| "deepcopy (Suc d) a st =
     (case st of (h, m) \<Rightarrow>
        (case m a of
           Some y \<Rightarrow> Inr (y, h, m)
         | None \<Rightarrow>
             (case cell_at h a of
                Str s \<Rightarrow> (case alloc h (Str s) of (y, h') \<Rightarrow> Inr (y, h', m(a \<mapsto> y)))
              | Lst xs \<Rightarrow>
                  (case alloc h (Lst []) of (y, h') \<Rightarrow>
                     bindE (copy_elems (deepcopy d) xs (h', m(a \<mapsto> y)))
                       (\<lambda>(ys, h'', m'). Inr (y, h''[y := Lst ys], m'))))))"

text \<open>\<open>Type.clone\<close>: a deep copy with a memo of its own.\<close>

definition clone :: "nat \<Rightarrow> heap \<Rightarrow> addr \<Rightarrow> error + (addr \<times> heap)" where
  "clone d h a = bindE (deepcopy d a (h, Map.empty)) (\<lambda>(y, h', m). Inr (y, h'))"

section \<open>Substitution maps (\<open>dict[Type, Type]\<close>)\<close>

text \<open>
  \<open>Type.__hash__\<close> returns \<open>1\<close> for every object, so all keys of a dictionary collide
  and a lookup walks the entries in insertion order until it meets a key that is the
  same object or is equal by \<open>__eq__\<close>. A dictionary is the list of its entries, each a
  key object and a value object, in insertion order.
\<close>

type_synonym type_dict = "(addr \<times> addr) list"

text \<open>\<open>k in s\<close> and \<open>s[k]\<close>: the value of the first entry whose key is \<open>k\<close> or equals it.\<close>

fun dict_get :: "nat \<Rightarrow> heap \<Rightarrow> type_dict \<Rightarrow> addr \<Rightarrow> error + addr option" where
  "dict_get d h [] k = Inr None"
| "dict_get d h ((k', v) # s) k =
     (if k' = k then Inr (Some v)
      else bindE (type_eq d h k' k) (\<lambda>r. if r then Inr (Some v) else dict_get d h s k))"

text \<open>
  \<open>s[k] = v\<close>: an entry whose key is \<open>k\<close> or equals it keeps its key object and gets
  the new value; otherwise a new entry is appended.
\<close>

fun dict_set :: "nat \<Rightarrow> heap \<Rightarrow> type_dict \<Rightarrow> addr \<Rightarrow> addr \<Rightarrow> error + type_dict" where
  "dict_set d h [] k v = Inr [(k, v)]"
| "dict_set d h ((k', v') # s) k v =
     (if k' = k then Inr ((k', v) # s)
      else bindE (type_eq d h k' k) (\<lambda>r.
             if r then Inr ((k', v) # s)
             else bindE (dict_set d h s k v) (\<lambda>s'. Inr ((k', v') # s'))))"

section \<open>Unifier (\<open>unify_vars\<close> in \<open>type_inference.py\<close>)\<close>

text \<open>
  \<open>[unify_vars(x1, x2, solutions) for x1, x2 in zip(t1, t2)]\<close>: the pairs of \<open>zip\<close>, so
  the elements of the longer tuple beyond the length of the shorter one are not visited.
\<close>

fun unify_zip :: "(addr option \<Rightarrow> addr option \<Rightarrow> heap \<times> type_dict \<Rightarrow> error + (heap \<times> type_dict))
    \<Rightarrow> (addr option \<times> addr option) list \<Rightarrow> heap \<times> type_dict \<Rightarrow> error + (heap \<times> type_dict)" where
  "unify_zip f [] st = Inr st"
| "unify_zip f ((x1, x2) # r) st = bindE (f x1 x2 st) (unify_zip f r)"

text \<open>
  \<open>solutions[key.clone()] = val.clone()\<close>: Python evaluates the right-hand side first.
\<close>

definition insert_clones :: "nat \<Rightarrow> addr \<Rightarrow> addr \<Rightarrow> heap \<times> type_dict
    \<Rightarrow> error + (heap \<times> type_dict)" where
  "insert_clones d key val st =
     (case st of (h, solutions) \<Rightarrow>
        bindE (clone d h val) (\<lambda>(v, h1).
        bindE (clone d h1 key) (\<lambda>(k, h2).
        bindE (dict_set d h2 solutions k v) (\<lambda>solutions'. Inr (h2, solutions')))))"

text \<open>
  \<open>unify_vars(one, two, solutions)\<close>. The dictionary is updated in place and returned;
  here the heap and the dictionary are passed through. An argument that is no \<open>Type\<close>
  (\<open>None\<close>) reaches the last case, \<open>RuntimeError("Invalid types")\<close>. The output of
  \<open>print\<close> is not modelled.
\<close>

primrec unify_vars :: "nat \<Rightarrow> addr option \<Rightarrow> addr option \<Rightarrow> heap \<times> type_dict
    \<Rightarrow> error + (heap \<times> type_dict)" where
  "unify_vars 0 one two st = Inl RecursionError"
| "unify_vars (Suc d) one two st =
     (case (one, two) of
        (Some a, Some b) \<Rightarrow>
          (case st of (h, solutions) \<Rightarrow>
             (case (cell_at h a, cell_at h b) of
                (Lst t1, Lst t2) \<Rightarrow> unify_zip (unify_vars d) (zip t1 t2) st
              | _ \<Rightarrow>
                  bindE (type_eq d h a b) (\<lambda>same.
                    if same then Inr st
                    else bindE (dict_get d h solutions a) (\<lambda>r1.
                      case r1 of
                        Some v \<Rightarrow> unify_vars d (Some v) two st
                      | None \<Rightarrow>
                          bindE (dict_get d h solutions b) (\<lambda>r2.
                            case r2 of
                              Some v \<Rightarrow> unify_vars d one (Some v) st
                            | None \<Rightarrow>
                                bindE (is_base_type d h a) (\<lambda>base1.
                                bindE (is_base_type d h b) (\<lambda>base2.
                                  if base1 \<and> base2 then
                                    bindE (type_eq d h a b) (\<lambda>same'.
                                      if same' then Inr st else Inl AssertionError)
                                  else if base1 then insert_clones d b a st
                                  else insert_clones d a b st)))))))
      | _ \<Rightarrow> Inl RuntimeError)"

section \<open>Simplification (\<open>simplify_unification\<close> in \<open>type_inference.py\<close>)\<close>

text \<open>
  The inner function \<open>demote_constraint(t)\<close> of \<open>simplify_unification\<close>: when \<open>t\<close> is a key
  of \<open>unified\<close> and differs from its value, \<open>t.set(unified[t])\<close> overwrites the field of
  the object \<open>t\<close> with the field of the value.
\<close>

definition demote_constraint :: "nat \<Rightarrow> type_dict \<Rightarrow> addr \<Rightarrow> heap \<Rightarrow> error + (bool \<times> heap)" where
  "demote_constraint d unified t h =
     bindE (dict_get d h unified t) (\<lambda>r.
       case r of
         None \<Rightarrow> Inr (False, h)
       | Some v \<Rightarrow>
           bindE (type_eq d h t v) (\<lambda>same.
             if same then Inr (False, h) else Inr (True, h[t := cell_at h v])))"

text \<open>
  \<open>any([convert_type(base_t, T1, converter) for T1 in types])\<close>: the list comprehension
  visits every element before \<open>any\<close> looks at the results.
\<close>

fun convert_elems :: "(addr option \<Rightarrow> heap \<Rightarrow> error + (bool \<times> heap)) \<Rightarrow> addr option list \<Rightarrow> heap
    \<Rightarrow> error + (bool \<times> heap)" where
  "convert_elems f [] h = Inr (False, h)"
| "convert_elems f (T1 # types) h =
     bindE (f T1 h) (\<lambda>(r, h').
       bindE (convert_elems f types h') (\<lambda>(rs, h''). Inr (r \<or> rs, h'')))"

text \<open>
  \<open>convert_type(base_t, t, converter)\<close>, with \<open>demote_constraint\<close> as the converter, the
  only one the source passes. An element \<open>None\<close> is unequal to \<open>base_t\<close> and has no
  attribute \<open>type\<close>.
\<close>

primrec convert_type :: "nat \<Rightarrow> type_dict \<Rightarrow> addr \<Rightarrow> addr option \<Rightarrow> heap
    \<Rightarrow> error + (bool \<times> heap)" where
  "convert_type 0 unified base_t t h = Inl RecursionError"
| "convert_type (Suc d) unified base_t t h =
     (case t of
        None \<Rightarrow> Inl AttributeError
      | Some ta \<Rightarrow>
          bindE (type_eq d h ta base_t) (\<lambda>same.
            if same then Inr (False, h)
            else (case cell_at h ta of
                    Str s \<Rightarrow> demote_constraint d unified ta h
                  | Lst types \<Rightarrow> convert_elems (convert_type d unified base_t) types h)))"

text \<open>The inner loop \<open>for u in unified\<close> of \<open>simplify_unification\<close>, over the keys in order.\<close>

fun simplify_keys :: "nat \<Rightarrow> type_dict \<Rightarrow> addr list \<Rightarrow> heap \<Rightarrow> error + heap" where
  "simplify_keys d unified [] h = Inr h"
| "simplify_keys d unified (u # us) h =
     bindE (dict_get d h unified u) (\<lambda>r.
       case r of
         None \<Rightarrow> Inl KeyError
       | Some v \<Rightarrow>
           bindE (is_base_type d h v) (\<lambda>base.
             if base then simplify_keys d unified us h
             else bindE (convert_type d unified u (Some v) h) (\<lambda>(r, h').
                    simplify_keys d unified us h')))"

text \<open>The outer loop \<open>for _ in range(0, 10)\<close>.\<close>

primrec simplify_rounds :: "nat \<Rightarrow> nat \<Rightarrow> type_dict \<Rightarrow> heap \<Rightarrow> error + heap" where
  "simplify_rounds 0 d unified h = Inr h"
| "simplify_rounds (Suc n) d unified h =
     bindE (simplify_keys d unified (map fst unified) h) (simplify_rounds n d unified)"

definition simplify_unification :: "nat \<Rightarrow> type_dict \<Rightarrow> heap \<Rightarrow> error + heap" where
  "simplify_unification d unified h = simplify_rounds 10 d unified h"

section \<open>Specialization (\<open>FunctionStub.apply_with_type\<close> in \<open>function_stub.py\<close>)\<close>

text \<open>The class \<open>FunctionStub\<close>; \<open>my_type\<close> is a \<open>Type\<close> object or \<open>None\<close>.\<close>

record FunctionStub =
  node :: AstNode
  name :: string
  params_list :: "string list"
  body :: AstNode
  intermediate_types :: type_dict
  my_type :: "addr option"

text \<open>
  \<open>copy.deepcopy\<close> of a dictionary: one memo for all keys and values, the value of an
  entry copied before its key, and the copies entered with \<open>y[key] = value\<close>.
\<close>

fun deepcopy_dict :: "nat \<Rightarrow> type_dict \<Rightarrow> type_dict \<times> heap \<times> memo
    \<Rightarrow> error + (type_dict \<times> heap \<times> memo)" where
  "deepcopy_dict d [] st = Inr st"
| "deepcopy_dict d ((key, val) # x) st =
     (case st of (y, h, m) \<Rightarrow>
        bindE (deepcopy d val (h, m)) (\<lambda>(v, h1, m1).
        bindE (deepcopy d key (h1, m1)) (\<lambda>(k, h2, m2).
        bindE (dict_set d h2 y k v) (\<lambda>y'. deepcopy_dict d x (y', h2, m2)))))"

text \<open>\<open>len(t.type)\<close>: the length of the string or of the list.\<close>

definition type_len :: "cell \<Rightarrow> nat" where
  "type_len c = (case c of Str s \<Rightarrow> length s | Lst xs \<Rightarrow> length xs)"

text \<open>\<open>all((solution[t].is_base_type() for t in solution))\<close>.\<close>

fun all_values_base :: "nat \<Rightarrow> heap \<Rightarrow> type_dict \<Rightarrow> addr list \<Rightarrow> error + bool" where
  "all_values_base d h solution [] = Inr True"
| "all_values_base d h solution (t # ts) =
     bindE (dict_get d h solution t) (\<lambda>r.
       case r of
         None \<Rightarrow> Inl KeyError
       | Some v \<Rightarrow>
           bindE (is_base_type d h v) (\<lambda>base.
             if base then all_values_base d h solution ts else Inr False))"

text \<open>\<open>s[k]\<close> where the key must be present: a \<open>KeyError\<close> otherwise (also for \<open>None\<close>).\<close>

definition dict_item :: "nat \<Rightarrow> heap \<Rightarrow> type_dict \<Rightarrow> addr option \<Rightarrow> error + addr" where
  "dict_item d h s k =
     (case k of
        None \<Rightarrow> Inl KeyError
      | Some a \<Rightarrow>
          bindE (dict_get d h s a) (\<lambda>r. case r of None \<Rightarrow> Inl KeyError | Some v \<Rightarrow> Inr v))"

text \<open>
  \<open>apply_with_type(self, args)\<close>. The result is the returned object together with the
  local dictionary \<open>solution\<close>, which the source prints, and the heap.
\<close>

definition apply_with_type :: "nat \<Rightarrow> FunctionStub \<Rightarrow> addr \<Rightarrow> heap
    \<Rightarrow> error + (addr \<times> type_dict \<times> heap)" where
  "apply_with_type d self args h =
     (case cell_at h args of
        Str s \<Rightarrow> Inl RuntimeError
      | Lst types \<Rightarrow>
          bindE (dict_item d h (intermediate_types self) (my_type self)) (\<lambda>mine.
            if length types \<noteq> type_len (cell_at h mine) then Inl AssertionError
            else
              bindE (deepcopy_dict d (intermediate_types self) ([], h, Map.empty))
                (\<lambda>(copied, h1, m).
              bindE (unify_vars d (my_type self) (Some args) (h1, copied)) (\<lambda>(h2, solution).
              bindE (simplify_unification d solution h2) (\<lambda>h3.
              bindE (all_values_base d h3 solution (map fst solution)) (\<lambda>resolved.
                if \<not> resolved then Inl AssertionError
                else bindE (dict_item d h3 solution (my_type self)) (\<lambda>result.
                       Inr (result, solution, h3))))))))"

section \<open>Types as finite trees\<close>

text \<open>
  The data model of a \<open>Type\<close>: an atomic type or a tuple of types. \<open>repr h a t\<close> says
  that the object at the address \<open>a\<close> of the heap \<open>h\<close> has the structure \<open>t\<close>; such an
  object is finite and holds no \<open>None\<close>.
\<close>

datatype ty = Atom string | Tuple "ty list"

fun repr :: "heap \<Rightarrow> addr \<Rightarrow> ty \<Rightarrow> bool" where
  "repr h a (Atom s) = (cell_at h a = Str s)"
| "repr h a (Tuple ts) =
     (case cell_at h a of
        Lst xs \<Rightarrow> list_all2 (\<lambda>x t. case x of Some b \<Rightarrow> repr h b t | None \<Rightarrow> False) xs ts
      | Str s \<Rightarrow> False)"

abbreviation repr_elem :: "heap \<Rightarrow> addr option \<Rightarrow> ty \<Rightarrow> bool" where
  "repr_elem h \<equiv> (\<lambda>x t. case x of Some b \<Rightarrow> repr h b t | None \<Rightarrow> False)"

text \<open>On such objects \<open>__eq__\<close> decides the equality of the structures.\<close>

lemma repr_Tuple [simp]:
  "repr h a (Tuple ts) = (\<exists>xs. cell_at h a = Lst xs \<and> list_all2 (repr_elem h) xs ts)"
  by (auto split: cell.splits)

declare repr.simps(2) [simp del]

lemma repr_fun: "repr h a t \<Longrightarrow> repr h a u \<Longrightarrow> t = u"
proof (induction t arbitrary: a u)
  case (Atom s)
  then show ?case by (cases u) (auto split: cell.splits)
next
  case (Tuple ts)
  from Tuple.prems obtain xs where xs: "cell_at h a = Lst xs"
    and r1: "list_all2 (repr_elem h) xs ts"
    by (auto simp: repr_Tuple)
  from Tuple.prems xs obtain us where u: "u = Tuple us"
    and r2: "list_all2 (repr_elem h) xs us"
    by (cases u) (auto simp: repr_Tuple)
  have "ts = us"
  proof (rule nth_equalityI)
    show "length ts = length us" using list_all2_lengthD [OF r1] list_all2_lengthD [OF r2] by simp
  next
    fix i assume i: "i < length ts"
    with list_all2_lengthD [OF r1] have ix: "i < length xs" by simp
    from r1 ix have e1: "repr_elem h (xs ! i) (ts ! i)" by (rule list_all2_nthD)
    from r2 ix have e2: "repr_elem h (xs ! i) (us ! i)" by (rule list_all2_nthD)
    from e1 obtain b where b: "xs ! i = Some b" by (cases "xs ! i") auto
    from i have "ts ! i \<in> set ts" by simp
    from Tuple.IH [OF this] e1 e2 b show "ts ! i = us ! i" by simp
  qed
  with u show ?case by simp
qed

lemma size_nth_less: "i < length ts \<Longrightarrow> size (ts ! i) < Suc (size_list size ts)"
  by (induction ts arbitrary: i) (auto simp: nth_Cons split: nat.splits, fastforce)

lemma elems_eq_repr:
  assumes "length xs = length ys"
    and "list_all2 (repr_elem h) xs ts" "list_all2 (repr_elem h) ys us"
    and "\<And>a b t u. t \<in> set ts \<Longrightarrow> repr h a t \<Longrightarrow> repr h b u \<Longrightarrow> eq a b = Inr (t = u)"
  shows "elems_eq eq xs ys = Inr (ts = us)"
  using assms
proof (induction xs ys arbitrary: ts us rule: list_induct2)
  case Nil
  then show ?case by simp
next
  case (Cons x xs y ys)
  note prems4 = Cons.prems and IH4 = Cons.IH
  from prems4(1) obtain t ts' where ts: "ts = t # ts'" and rx: "repr_elem h x t"
    and rxs: "list_all2 (repr_elem h) xs ts'" by (auto simp: list_all2_Cons1)
  from prems4(2) obtain u us' where us: "us = u # us'" and ry: "repr_elem h y u"
    and rys: "list_all2 (repr_elem h) ys us'" by (auto simp: list_all2_Cons1)
  from rx obtain a where a: "x = Some a" "repr h a t" by (cases x) auto
  from ry obtain b where b: "y = Some b" "repr h b u" by (cases y) auto
  have rest: "elems_eq eq xs ys = Inr (ts' = us')"
    by (rule IH4 [OF rxs rys]) (use prems4(3) ts in auto)
  have hd: "(if x = y then Inr True else eq a b) = Inr (t = u)"
  proof (cases "x = y")
    case True
    with a b have "t = u" by (auto dest: repr_fun)
    with True show ?thesis by simp
  next
    case False
    with prems4(3) [of t a b u] ts a b show ?thesis by simp
  qed
  show ?case using hd rest a b ts us by (auto split: if_splits)
qed

lemma type_eq_repr:
  "repr h a t \<Longrightarrow> repr h b u \<Longrightarrow> size t < d \<Longrightarrow> type_eq d h a b = Inr (t = u)"
proof (induction t arbitrary: a b u d)
  case (Atom s)
  then obtain d' where d: "d = Suc d'" by (cases d) auto
  from Atom show ?case unfolding d by (cases u) (auto split: cell.splits)
next
  case (Tuple ts)
  then obtain d' where d: "d = Suc d'" by (cases d) auto
  from Tuple.prems obtain xs where xs: "cell_at h a = Lst xs"
    and r1: "list_all2 (repr_elem h) xs ts" by (auto simp: repr_Tuple)
  show ?case
  proof (cases u)
    case (Atom s)
    with Tuple.prems xs show ?thesis unfolding d by auto
  next
    case (Tuple us)
    with Tuple.prems(2) obtain ys where ys: "cell_at h b = Lst ys"
      and r2: "list_all2 (repr_elem h) ys us" by (auto simp: repr_Tuple)
    show ?thesis
    proof (cases "length xs = length ys")
      case False
      with list_all2_lengthD [OF r1] list_all2_lengthD [OF r2] have "ts \<noteq> us" by auto
      with False xs ys Tuple show ?thesis unfolding d by simp
    next
      case True
      have ee: "elems_eq (type_eq d' h) xs ys = Inr (ts = us)"
      proof (rule elems_eq_repr [OF True r1 r2])
      fix a' b' t' u' assume t': "t' \<in> set ts" and "repr h a' t'" "repr h b' u'"
      moreover from t' have "size t' < Suc (size_list size ts)"
        by (auto simp: in_set_conv_nth size_nth_less)
      with Tuple.prems(3) d have "size t' < d'" by simp
      ultimately show "type_eq d' h a' b' = Inr (t' = u')"
        using Tuple.IH by blast
      qed
      show ?thesis unfolding d using xs ys ee True Tuple by simp
    qed
  qed
qed

text \<open>A dictionary all of whose keys are finite types, of a size the comparison can reach.\<close>

definition keys_ok :: "nat \<Rightarrow> heap \<Rightarrow> type_dict \<Rightarrow> bool" where
  "keys_ok d h s = (\<forall>k \<in> fst ` set s. \<exists>t. repr h k t \<and> size t < d)"

section \<open>Constraint generation (\<open>type_annotator\<close> in \<open>type_inference.py\<close>)\<close>

text \<open>\<open>x.isnumeric()\<close> on the ASCII range: a non-empty string of digits.\<close>

definition isnumeric :: "string \<Rightarrow> bool" where
  "isnumeric x = (x \<noteq> [] \<and> list_all isdigit x)"

text \<open>
  \<open>get_unknown_type_var\<close>: the global \<open>type_var_counter\<close> is passed in and returned. A
  name that is \<open>None\<close> or empty is replaced by the incremented counter.
\<close>

definition get_unknown_type_var :: "string option \<Rightarrow> nat \<Rightarrow> string \<times> nat" where
  "get_unknown_type_var var_name type_var_counter =
     (if var_name = None \<or> var_name = Some []
      then (''Unknown-'' @ str_of_nat (type_var_counter + 1), type_var_counter + 1)
      else (''Unknown-'' @ the var_name, type_var_counter))"

text \<open>
  A \<open>TypeConstraint\<close> holds the two objects \<open>lhs\<close> and \<open>rhs\<close>. The state of the
  annotation is the heap, the counter and the list \<open>constraints\<close>, which the source
  appends to in place.
\<close>

type_synonym constraint = "addr option \<times> addr option"

type_synonym annot = "heap \<times> nat \<times> constraint list"

text \<open>\<open>Type(...)\<close>: a new object. \<open>Type(get_unknown_type_var(...))\<close>: a new type variable.\<close>

definition new_Type :: "cell \<Rightarrow> annot \<Rightarrow> addr \<times> annot" where
  "new_Type c st =
     (case st of (h, n, cs) \<Rightarrow> (case alloc h c of (a, h') \<Rightarrow> (a, (h', n, cs))))"

definition new_var :: "string option \<Rightarrow> annot \<Rightarrow> addr \<times> annot" where
  "new_var var_name st =
     (case st of (h, n, cs) \<Rightarrow>
        (case get_unknown_type_var var_name n of (s, n') \<Rightarrow> new_Type (Str s) (h, n', cs)))"

definition append_constraint :: "constraint \<Rightarrow> annot \<Rightarrow> annot" where
  "append_constraint c st = (case st of (h, n, cs) \<Rightarrow> (h, n, cs @ [c]))"

text \<open>\<open>operands_type[-1]\<close>.\<close>

fun last_type :: "addr option list \<Rightarrow> error + addr option" where
  "last_type [] = Inl IndexError"
| "last_type ts = Inr (last ts)"

text \<open>
  \<open>type_annotator(fn, constraints)\<close>; \<open>fn\<close> is a node or a string. A node that matches
  no case makes the function return \<open>None\<close>; this includes a node whose \<open>operands\<close> is a
  bare node, which is no sequence. In the first case the guard calls \<open>x.isnumeric()\<close>,
  which a node does not have. \<open>type_annotator_list\<close> is the annotation of a list of
  operands from left to right.
\<close>

fun type_annotator :: "operand \<Rightarrow> annot \<Rightarrow> error + (addr option \<times> annot)"
  and type_annotator_list :: "operand list \<Rightarrow> annot \<Rightarrow> error + (addr option list \<times> annot)"
where
  "type_annotator (Tok var_name) st =
     (case new_var (Some var_name) st of (a, st') \<Rightarrow> Inr (Some a, st'))"
| "type_annotator (Sub (AstNode instr (Bare k))) st = Inr (None, st)"
| "type_annotator (Sub (AstNode instr (Ops ks))) st =
     (if instr = NumberConstant then
        (case ks of
           [Sub n] \<Rightarrow> Inl AttributeError
         | [Tok x] \<Rightarrow>
             if isnumeric x then
               (case new_Type (Str ''int'') st of (a, st') \<Rightarrow> Inr (Some a, st'))
             else if is_number x then
               (case new_Type (Str ''float'') st of (a, st') \<Rightarrow> Inr (Some a, st'))
             else Inr (None, st)
         | _ \<Rightarrow> Inr (None, st))
      else if instr = String1 then
        (case ks of
           [Tok var_name] \<Rightarrow>
             (case new_var (Some var_name) st of (a, st') \<Rightarrow> Inr (Some a, st'))
         | _ \<Rightarrow> Inr (None, st))
      else if instr = Add \<or> instr = Mult then
        (case ks of
           [lhs, rhs] \<Rightarrow>
             bindE (type_annotator lhs st) (\<lambda>(lhs_type, st1).
             bindE (type_annotator rhs st1) (\<lambda>(rhs_type, st2).
               case new_var None st2 of (result_type, st3) \<Rightarrow>
               case new_Type (Lst [lhs_type, rhs_type, Some result_type]) st3 of
                 (param_types, st4) \<Rightarrow>
               case new_Type (Str ''Operator+'') st4 of (operator, st5) \<Rightarrow>
                 Inr (Some result_type,
                      append_constraint (Some operator, Some param_types) st5)))
         | _ \<Rightarrow> Inr (None, st))
      else if instr = Negate then
        (case ks of
           [val] \<Rightarrow>
             bindE (type_annotator val st) (\<lambda>(val_type, st1).
               case new_Type (Str ''int'') st1 of (int_type, st2) \<Rightarrow>
                 Inr (val_type, append_constraint (val_type, Some int_type) st2))
         | _ \<Rightarrow> Inr (None, st))
      else if instr = Unknown then
        (case ks of
           Sub (AstNode String1 (Ops [Tok fn_name])) # params \<Rightarrow>
             (case new_var None st of (return_type, st1) \<Rightarrow>
              case new_Type (Str fn_name) st1 of (fn_name_type, st2) \<Rightarrow>
                bindE (type_annotator_list params st2) (\<lambda>(params_type, st3).
                  case new_Type (Lst (params_type @ [Some return_type])) st3 of
                    (params_tuple, st4) \<Rightarrow>
                      Inr (Some return_type,
                           append_constraint (Some fn_name_type, Some params_tuple) st4)))
         | _ \<Rightarrow>
             bindE (type_annotator_list ks st) (\<lambda>(operands_type, st1).
               bindE (last_type operands_type) (\<lambda>r. Inr (r, st1))))
      else Inr (None, st))"
| "type_annotator_list [] st = Inr ([], st)"
| "type_annotator_list (p # ps) st =
     bindE (type_annotator p st) (\<lambda>(t, st1).
       bindE (type_annotator_list ps st1) (\<lambda>(ts, st2). Inr (t # ts, st2)))"

section \<open>Typed trees and call resolution (\<open>astnode.py\<close>, \<open>compiler.py\<close>)\<close>

text \<open>
  The classes derived from \<open>BaseAst\<close>. A type is the address of its object. A
  \<open>FunctionApplication\<close> holds a reference to a \<open>TypedFnDef\<close> object; the objects it can
  refer to are the elements of the list given to \<open>resolve_all_function_calls\<close>, so the
  reference is the position of the definition in that list.
\<close>

datatype VariableDef = VariableDef string addr

datatype BaseAst =
    ProgN "BaseAst list"
  | VariableLoad VariableDef
  | UnresolvedVariableLoad string
  | ConstantLoad addr string
  | UntypedFnDef string "VariableDef list" "BaseAst list"
  | TypedFnDef string "VariableDef list" BaseAst addr
  | FunctionApplication nat "BaseAst list"
  | UnresolvedFnApp string "BaseAst list"

text \<open>
  \<open>function_name_map = {x.name: x for x in functions}\<close>: a later definition replaces
  an earlier one of the same name. Only the two kinds of definitions have a \<open>name\<close>.
\<close>

fun function_name_map :: "BaseAst list \<Rightarrow> nat \<Rightarrow> (string \<rightharpoonup> nat) \<Rightarrow> error + (string \<rightharpoonup> nat)" where
  "function_name_map [] i m = Inr m"
| "function_name_map (TypedFnDef n ps b rt # xs) i m = function_name_map xs (Suc i) (m(n \<mapsto> i))"
| "function_name_map (UntypedFnDef n ps bs # xs) i m = function_name_map xs (Suc i) (m(n \<mapsto> i))"
| "function_name_map (_ # xs) i m = Inl AttributeError"

text \<open>
  The inner function \<open>recursive_resolver\<close>; \<open>resolve_each\<close> is its application to the
  elements of a list from left to right. The source assigns the resolved body to the
  definition in place and returns the definition; here the updated definition is
  returned.
\<close>

fun recursive_resolver :: "(string \<rightharpoonup> nat) \<Rightarrow> BaseAst \<Rightarrow> error + BaseAst"
  and resolve_each :: "(string \<rightharpoonup> nat) \<Rightarrow> BaseAst list \<Rightarrow> error + BaseAst list"
where
  "recursive_resolver m (TypedFnDef n ps b rt) =
     bindE (recursive_resolver m b) (\<lambda>b'. Inr (TypedFnDef n ps b' rt))"
| "recursive_resolver m (UnresolvedFnApp fn params) =
     bindE (resolve_each m params) (\<lambda>resolved_params.
       case m fn of
         None \<Rightarrow> Inl KeyError
       | Some i \<Rightarrow> Inr (FunctionApplication i resolved_params))"
| "recursive_resolver m (ProgN programs) =
     bindE (resolve_each m programs) (\<lambda>ps. Inr (ProgN ps))"
| "recursive_resolver m a = Inr a"
| "resolve_each m [] = Inr []"
| "resolve_each m (x # xs) =
     bindE (recursive_resolver m x) (\<lambda>y. bindE (resolve_each m xs) (\<lambda>ys. Inr (y # ys)))"

definition resolve_all_function_calls :: "BaseAst list \<Rightarrow> error + BaseAst list" where
  "resolve_all_function_calls functions =
     bindE (function_name_map functions 0 Map.empty) (\<lambda>m. resolve_each m functions)"

text \<open>
  The names of the unresolved calls that the resolver reaches: it enters the body of a
  typed definition, the arguments of an unresolved call and the elements of a sequence.
\<close>

fun reachable_callees :: "BaseAst \<Rightarrow> string list" where
  "reachable_callees (UnresolvedFnApp fn params) = fn # concat (map reachable_callees params)"
| "reachable_callees (ProgN programs) = concat (map reachable_callees programs)"
| "reachable_callees (TypedFnDef n ps b rt) = reachable_callees b"
| "reachable_callees _ = []"

text \<open>The names of the unresolved calls anywhere in a tree.\<close>

fun callees :: "BaseAst \<Rightarrow> string list" where
  "callees (UnresolvedFnApp fn params) = fn # concat (map callees params)"
| "callees (FunctionApplication i params) = concat (map callees params)"
| "callees (ProgN programs) = concat (map callees programs)"
| "callees (TypedFnDef n ps b rt) = callees b"
| "callees (UntypedFnDef n ps bs) = concat (map callees bs)"
| "callees _ = []"

text \<open>
  The trees that the lowering pass \<open>convert_to_baseast\<close> builds: variable loads by name,
  constant loads, unresolved calls and sequences, inside a typed definition.
\<close>

fun lowered :: "BaseAst \<Rightarrow> bool" where
  "lowered (UnresolvedVariableLoad v) = True"
| "lowered (ConstantLoad t c) = True"
| "lowered (UnresolvedFnApp fn params) = list_all lowered params"
| "lowered (ProgN programs) = list_all lowered programs"
| "lowered (TypedFnDef n ps b rt) = lowered b"
| "lowered _ = False"

text \<open>
  \<open>replaced m a a'\<close>: the tree \<open>a'\<close> is the tree \<open>a\<close> with every unresolved call that
  the resolver reaches replaced by a direct call to the definition that the table \<open>m\<close>
  gives for its name, and nothing else changed.
\<close>

fun replaced :: "(string \<rightharpoonup> nat) \<Rightarrow> BaseAst \<Rightarrow> BaseAst \<Rightarrow> bool" where
  "replaced m (UnresolvedFnApp fn params) a' =
     (case a' of
        FunctionApplication i params' \<Rightarrow> m fn = Some i \<and> list_all2 (replaced m) params params'
      | _ \<Rightarrow> False)"
| "replaced m (ProgN programs) a' =
     (case a' of ProgN programs' \<Rightarrow> list_all2 (replaced m) programs programs' | _ \<Rightarrow> False)"
| "replaced m (TypedFnDef n ps b rt) a' =
     (case a' of TypedFnDef n' ps' b' rt' \<Rightarrow> n' = n \<and> ps' = ps \<and> rt' = rt \<and> replaced m b b'
      | _ \<Rightarrow> False)"
| "replaced m a a' = (a' = a)"

text \<open>The elements of the argument list are typed definitions.\<close>

fun is_typed :: "BaseAst \<Rightarrow> bool" where
  "is_typed (TypedFnDef n ps b rt) = True"
| "is_typed _ = False"


section \<open>Properties of the lexer, the parser and the desugarer\<close>

text \<open>
  Claim C10. A token list that begins with \<open>)\<close> does not make \<open>parser\<close> fail: the token
  is no opening parenthesis, no operator and no number, so it falls through to the
  last case and comes back as an identifier node with the value \<open>)\<close>, together with
  the remaining tokens.
\<close>

theorem parser_unmatched_close:
  "parser ('')'' # rest) = Inr (AstNode String1 (Ops [Tok '')'']), rest)"
  by (simp add: is_number_def isdigit_def)

text \<open>
  Claim C9. A group node whose only operand is a syntax node of any kind is replaced by
  the flattening of that operand: the two calls agree on the returned node, on the name
  counter and on failure.
\<close>

theorem flatten_tree_sole_child:
  "flatten_tree (AstNode Unknown (Ops [Sub child])) c = flatten_tree child c"
  by simp

text \<open>
  The example of claim C9: a group that holds one numeric literal flattens to the literal
  node itself.
\<close>

theorem flatten_tree_sole_child_witness:
  "flatten_tree (AstNode Unknown (Ops [Sub (AstNode NumberConstant (Ops [Tok ''5'']))])) 1
     = Inr (AstNode NumberConstant (Ops [Tok ''5'']), 1)"
  using flatten_tree_sole_child [of "AstNode NumberConstant (Ops [Tok ''5''])" 1] by simp

text \<open>
  Claim C7, at the input \<open>"a "\<close>. The lexer returns the token \<open>a\<close>; joined with single
  spaces this is the string \<open>"a"\<close>, whose only word is still being built when the input
  ends and is never appended, so lexing it again returns no token at all.
\<close>

theorem lexer_drops_final_word:
  "lexer ''a '' = [''a''] \<and> join_spaces (lexer ''a '') = ''a''
   \<and> lexer (join_spaces (lexer ''a '')) = []"
  by (simp add: lexer_def)

text \<open>
  Claim C4 as stated fails: the tree parsed from \<open>(- 5 1 1)\<close> is not the right-nested
  \<open>add(5, add(negate(1), negate(1)))\<close>, neither bare nor wrapped in its group.
\<close>

theorem parse_minus_counterexample:
  "parser (lexer ''(- 5 1 1)'') \<noteq>
     Inr (AstNode Add (Ops [Sub (AstNode NumberConstant (Ops [Tok ''5''])),
            Sub (AstNode Add (Ops
              [Sub (AstNode Negate (Bare (AstNode NumberConstant (Ops [Tok ''1''])))),
               Sub (AstNode Negate (Bare (AstNode NumberConstant (Ops [Tok ''1'']))))]))]), [])
   \<and> parser (lexer ''(- 5 1 1)'') \<noteq>
     Inr (AstNode Unknown (Ops [Sub
          (AstNode Add (Ops [Sub (AstNode NumberConstant (Ops [Tok ''5''])),
            Sub (AstNode Add (Ops
              [Sub (AstNode Negate (Bare (AstNode NumberConstant (Ops [Tok ''1''])))),
               Sub (AstNode Negate (Bare (AstNode NumberConstant (Ops [Tok ''1'']))))]))]))]),
          [])"
  by (simp add: lexer_def is_number_def isdigit_def)

text \<open>
  Claim C4, amended. A \<open>-\<close> form whose operands \<open>x, x1, ..., xn\<close> are followed by \<open>)\<close>
  negates every operand after the first and folds the operands from the left into nested
  binary-add nodes, \<open>add(...add(add(x, negate(x1)), negate(x2))..., negate(xn))\<close>; the \<open>)\<close>
  is left for the enclosing group. So \<open>(- 5 1 1)\<close> parses to a group whose only operand
  is \<open>add(add(5, negate(1)), negate(1))\<close>.
\<close>

theorem parse_minus_left_fold:
  "(take_until rest '')'' = Inr (x # xs, '')'' # after) \<longrightarrow>
      parser (''-'' # rest) =
        Inr (foldl (\<lambda>k1 k2. AstNode Add (Ops [Sub k1, Sub k2])) x
               (map (\<lambda>k. AstNode Negate (Bare k)) xs), '')'' # after))
   \<and> parser (lexer ''(- 5 1 1)'') =
       Inr (AstNode Unknown (Ops [Sub (AstNode Add (Ops
              [Sub (AstNode Add (Ops
                 [Sub (AstNode NumberConstant (Ops [Tok ''5''])),
                  Sub (AstNode Negate (Bare (AstNode NumberConstant (Ops [Tok ''1'']))))])),
               Sub (AstNode Negate (Bare (AstNode NumberConstant (Ops [Tok ''1'']))))]))]),
            [])"
  by (simp add: lexer_def is_number_def isdigit_def)

theorem parse_minus_left_fold_witness:
  "take_until [''5'', ''1'', ''1'', '')''] '')'' =
     Inr ([AstNode NumberConstant (Ops [Tok ''5'']), AstNode NumberConstant (Ops [Tok ''1'']),
           AstNode NumberConstant (Ops [Tok ''1''])], ['')''])
   \<and> parser [''-'', ''5'', ''1'', ''1'', '')''] =
       Inr (AstNode Add (Ops
              [Sub (AstNode Add (Ops
                 [Sub (AstNode NumberConstant (Ops [Tok ''5''])),
                  Sub (AstNode Negate (Bare (AstNode NumberConstant (Ops [Tok ''1'']))))])),
               Sub (AstNode Negate (Bare (AstNode NumberConstant (Ops [Tok ''1'']))))]),
            ['')''])"
proof -
  have t: "take_until [''5'', ''1'', ''1'', '')''] '')'' =
     Inr ([AstNode NumberConstant (Ops [Tok ''5'']), AstNode NumberConstant (Ops [Tok ''1'']),
           AstNode NumberConstant (Ops [Tok ''1''])], ['')''])"
    by (simp add: is_number_def isdigit_def)
  from parse_minus_left_fold [of "[''5'', ''1'', ''1'', '')'']"
      "AstNode NumberConstant (Ops [Tok ''5''])"
      "[AstNode NumberConstant (Ops [Tok ''1'']), AstNode NumberConstant (Ops [Tok ''1''])]" "[]"] t
  show ?thesis by simp
qed

section \<open>Properties of the substitution map and the unifier\<close>

text \<open>A type unifies with itself, element by element, without a change of the state.\<close>

lemma unify_zip_self:
  assumes "\<And>x. x \<in> set xs \<Longrightarrow> f x x st = Inr st"
  shows "unify_zip f (zip xs xs) st = Inr st"
  using assms by (induction xs) auto

lemma unify_vars_self:
  "repr h a t \<Longrightarrow> size t + 2 \<le> d \<Longrightarrow> unify_vars d (Some a) (Some a) (h, s) = Inr (h, s)"
proof (induction t arbitrary: a d)
  case (Atom x)
  then obtain d' where d: "d = Suc (Suc d')" by (cases d; cases "d - 1") auto
  from Atom show ?case unfolding d by simp
next
  case (Tuple ts)
  then obtain d' where d: "d = Suc d'" by (cases d) auto
  from Tuple.prems obtain xs where xs: "cell_at h a = Lst xs"
    and r: "list_all2 (repr_elem h) xs ts" by auto
  have "unify_zip (unify_vars d') (zip xs xs) (h, s) = Inr (h, s)"
  proof (rule unify_zip_self)
    fix x assume "x \<in> set xs"
    then obtain i where i: "i < length xs" "x = xs ! i" by (auto simp: in_set_conv_nth)
    from r i have e: "repr_elem h x (ts ! i)" by (auto dest: list_all2_nthD)
    then obtain b where b: "x = Some b" "repr h b (ts ! i)" by (cases x) auto
    from i list_all2_lengthD [OF r] have it: "i < length ts" by simp
    then have "ts ! i \<in> set ts" by simp
    moreover from size_nth_less [OF it] Tuple.prems(2) d have "size (ts ! i) + 2 \<le> d'" by simp
    ultimately show "unify_vars d' x x (h, s) = Inr (h, s)"
      using Tuple.IH b by simp
  qed
  with xs show ?case unfolding d by simp
qed

text \<open>
  On finite keys \<open>s[a] = v\<close> succeeds; it adds an entry only when no key has the
  structure of \<open>a\<close>, and afterwards every object of that structure looks up \<open>v\<close>.
\<close>

lemma dict_set_repr:
  assumes "keys_ok d h s" "repr h a t" "size t < d"
  shows "\<exists>s1. dict_set d h s a v = Inr s1 \<and> keys_ok d h s1
           \<and> length s1 = length s + (if \<exists>k \<in> fst ` set s. repr h k t then 0 else 1)
           \<and> (\<exists>k \<in> fst ` set s1. repr h k t)
           \<and> (\<forall>b. repr h b t \<longrightarrow> dict_get d h s1 b = Inr (Some v))"
  using assms
proof (induction s)
  case Nil
  have "\<And>b. repr h b t \<Longrightarrow> type_eq d h a b = Inr True"
    using type_eq_repr [OF Nil(2) _ Nil(3)] by simp
  with Nil show ?case by (auto simp: keys_ok_def)
next
  case (Cons e s)
  obtain k' v' where e: "e = (k', v')" by (cases e)
  from Cons.prems(1) e obtain t' where t': "repr h k' t'" "size t' < d"
    by (auto simp: keys_ok_def)
  from Cons.prems(1) have ok: "keys_ok d h s" by (auto simp: keys_ok_def)
  have eqa: "\<And>b u. repr h b u \<Longrightarrow> type_eq d h k' b = Inr (t' = u)"
    using type_eq_repr [OF t'(1) _ t'(2)] by simp
  show ?case
  proof (cases "t' = t")
    case True
    have hit: "dict_set d h (e # s) a v = Inr ((k', v) # s)"
      using e eqa [OF Cons.prems(2)] True by simp
    have get: "\<And>b. repr h b t \<Longrightarrow> dict_get d h ((k', v) # s) b = Inr (Some v)"
      using eqa True by simp
    have "keys_ok d h ((k', v) # s)" using Cons.prems(1) e by (auto simp: keys_ok_def)
    moreover have "\<exists>k \<in> fst ` set (e # s). repr h k t" using t' True e by auto
    moreover have "\<exists>k \<in> fst ` set ((k', v) # s). repr h k t" using t' True by auto
    ultimately show ?thesis using hit get by auto
  next
    case False
    then have ne: "k' \<noteq> a" using t' Cons.prems(2) by (auto dest: repr_fun)
    from Cons.IH [OF ok Cons.prems(2,3)] obtain s1 where s1:
      "dict_set d h s a v = Inr s1" "keys_ok d h s1"
      "length s1 = length s + (if \<exists>k \<in> fst ` set s. repr h k t then 0 else 1)"
      "\<exists>k \<in> fst ` set s1. repr h k t"
      "\<forall>b. repr h b t \<longrightarrow> dict_get d h s1 b = Inr (Some v)" by blast
    have set: "dict_set d h (e # s) a v = Inr ((k', v') # s1)"
      using e ne eqa [OF Cons.prems(2)] False s1(1) by simp
    have nk: "\<not> repr h k' t" using t' False by (auto dest: repr_fun)
    have get: "\<And>b. repr h b t \<Longrightarrow> dict_get d h ((k', v') # s1) b = Inr (Some v)"
    proof -
      fix b assume b: "repr h b t"
      with nk have "k' \<noteq> b" by auto
      with eqa [OF b] False s1(5) b show "dict_get d h ((k', v') # s1) b = Inr (Some v)" by simp
    qed
    have "keys_ok d h ((k', v') # s1)" using s1(2) t' by (auto simp: keys_ok_def)
    moreover have "(\<exists>k \<in> fst ` set (e # s). repr h k t) = (\<exists>k \<in> fst ` set s. repr h k t)"
      using nk e by auto
    moreover have "\<exists>k \<in> fst ` set ((k', v') # s1). repr h k t" using s1(4) by auto
    ultimately show ?thesis using set get s1(3) by auto
  qed
qed

text \<open>
  Claim C8 as stated fails: two distinct objects (addresses \<open>0\<close> and \<open>1\<close>) with the equal
  structure \<open>Unknown-x\<close> are entered one after the other into the empty dictionary. The
  second assignment finds the entry of the first and overwrites its value: one entry is
  left, not two.
\<close>

theorem equal_structure_keys_counterexample:
  "dict_set 1000 [Str ''Unknown-x'', Str ''Unknown-x'', Str ''int'', Str ''float''] [] 0 2
     = Inr [(0, 2)]
   \<and> dict_set 1000 [Str ''Unknown-x'', Str ''Unknown-x'', Str ''int'', Str ''float''] [(0, 2)] 1 3
     = Inr [(0, 3)]"
  by code_simp

text \<open>
  Claim C8, amended. Two \<open>Type\<close> values with equal structure, distinct objects or not,
  are the same key of a substitution map: when both are entered as keys, the second
  assignment adds no entry and overwrites the value of the first, and either object
  then looks up the second value. (The keys are finite types within reach of the
  recursion limit.)
\<close>

theorem equal_structure_same_key:
  assumes "keys_ok d h s" "repr h a t" "repr h b t" "size t < d"
  shows "\<exists>s1 s2. dict_set d h s a v = Inr s1 \<and> dict_set d h s1 b w = Inr s2
           \<and> length s2 = length s1
           \<and> dict_get d h s2 a = Inr (Some w) \<and> dict_get d h s2 b = Inr (Some w)"
proof -
  from dict_set_repr [OF assms(1,2,4), of v] obtain s1 where s1:
    "dict_set d h s a v = Inr s1" "keys_ok d h s1" "\<exists>k \<in> fst ` set s1. repr h k t"
    by blast
  from dict_set_repr [OF s1(2) assms(3,4), of w] s1(3) obtain s2 where s2:
    "dict_set d h s1 b w = Inr s2" "length s2 = length s1"
    "\<forall>c. repr h c t \<longrightarrow> dict_get d h s2 c = Inr (Some w)"
    by auto
  with s1(1) assms(2,3) show ?thesis by blast
qed

theorem equal_structure_same_key_witness:
  "\<exists>s1 s2.
      dict_set 1000 [Str ''Unknown-x'', Str ''Unknown-x'', Str ''int'', Str ''float''] [] 0 2
        = Inr s1
    \<and> dict_set 1000 [Str ''Unknown-x'', Str ''Unknown-x'', Str ''int'', Str ''float''] s1 1 3
        = Inr s2
    \<and> length s2 = length s1
    \<and> dict_get 1000 [Str ''Unknown-x'', Str ''Unknown-x'', Str ''int'', Str ''float''] s2 0
        = Inr (Some 3)
    \<and> dict_get 1000 [Str ''Unknown-x'', Str ''Unknown-x'', Str ''int'', Str ''float''] s2 1
        = Inr (Some 3)"
proof -
  have k: "keys_ok 1000 [Str ''Unknown-x'', Str ''Unknown-x'', Str ''int'', Str ''float''] []"
    by (simp add: keys_ok_def)
  have a: "repr [Str ''Unknown-x'', Str ''Unknown-x'', Str ''int'', Str ''float''] 0
      (Atom ''Unknown-x'')" by (simp add: cell_at_def)
  have b: "repr [Str ''Unknown-x'', Str ''Unknown-x'', Str ''int'', Str ''float''] 1
      (Atom ''Unknown-x'')" by (simp add: cell_at_def)
  have sz: "size (Atom ''Unknown-x'') < 1000" by simp
  from equal_structure_same_key [OF k a b sz, of 2 3] show ?thesis .
qed

text \<open>
  Claim C3 as stated fails: the fixed-arity signature \<open>(float, float)\<close> and the call
  shape \<open>(float, float, Unknown-1)\<close> have unequal arity, and \<open>unify_vars\<close> returns
  normally, with the substitution map unchanged.
\<close>

theorem unify_vars_arity_counterexample:
  "unify_vars 1000 (Some 2) (Some 6)
     ([Str ''float'', Str ''float'', Lst [Some 0, Some 1],
       Str ''float'', Str ''float'', Str ''Unknown-1'', Lst [Some 3, Some 4, Some 5]], [])
   = Inr ([Str ''float'', Str ''float'', Lst [Some 0, Some 1],
       Str ''float'', Str ''float'', Str ''Unknown-1'', Lst [Some 3, Some 4, Some 5]], [])"
  by code_simp

text \<open>
  Claim C3, amended. For tuple types of any two arities \<open>unify_vars\<close> raises no
  arity-mismatch error: it unifies the elements of the common prefix pairwise, in order,
  and ignores the remaining elements of the longer tuple, so it fails only when the
  unification of one of these pairs fails.
\<close>

theorem unify_vars_common_prefix:
  assumes "cell_at h a = Lst t1" "cell_at h b = Lst t2"
  shows "unify_vars (Suc d) (Some a) (Some b) (h, s) =
         unify_zip (unify_vars d)
           (zip (take (min (length t1) (length t2)) t1) (take (min (length t1) (length t2)) t2))
           (h, s)"
proof -
  have "zip t1 t2 =
      zip (take (min (length t1) (length t2)) t1) (take (min (length t1) (length t2)) t2)"
    by (simp add: take_zip [symmetric])
  with assms show ?thesis by simp
qed

theorem unify_vars_common_prefix_witness:
  "unify_vars 1000 (Some 2) (Some 6)
     ([Str ''float'', Str ''float'', Lst [Some 0, Some 1],
       Str ''float'', Str ''float'', Str ''Unknown-1'', Lst [Some 3, Some 4, Some 5]], [])
   = unify_zip (unify_vars 999) [(Some 0, Some 3), (Some 1, Some 4)]
     ([Str ''float'', Str ''float'', Lst [Some 0, Some 1],
       Str ''float'', Str ''float'', Str ''Unknown-1'', Lst [Some 3, Some 4, Some 5]], [])"
  using unify_vars_common_prefix [where d = 999 and a = 2 and b = 6
      and h = "[Str ''float'', Str ''float'', Lst [Some 0, Some 1],
       Str ''float'', Str ''float'', Str ''Unknown-1'', Lst [Some 3, Some 4, Some 5]]"
      and ?t1.0 = "[Some 0, Some 1]" and ?t2.0 = "[Some 3, Some 4, Some 5]" and s = "[]"]
  by (simp add: cell_at_def)

text \<open>
  Claim C5 as stated fails: a key of the map is looked up before the base types are
  compared, so with \<open>int\<close> mapped to \<open>float\<close> the distinct atomic base types \<open>int\<close> and
  \<open>float\<close> unify without an error.
\<close>

theorem unify_vars_base_counterexample:
  "unify_vars 1000 (Some 0) (Some 1)
     ([Str ''int'', Str ''float'', Str ''int'', Str ''float''], [(2, 3)])
   = Inr ([Str ''int'', Str ''float'', Str ''int'', Str ''float''], [(2, 3)])"
  by code_simp

text \<open>
  Claim C5, amended. Two distinct atomic base types neither of which is a key of the
  substitution map fail to unify, with the assertion error "Primitive types don't match";
  and every (finite) type unifies with itself, leaving the heap and the substitution map
  unchanged, when the recursion limit is above the size of the type.
\<close>

theorem unify_vars_base_conflict_and_self:
  "(cell_at h a = Str x \<and> cell_at h b = Str y \<and> x \<noteq> y
      \<and> x \<in> {''int'', ''float'', ''void''} \<and> y \<in> {''int'', ''float'', ''void''}
      \<and> dict_get (Suc d) h s a = Inr None \<and> dict_get (Suc d) h s b = Inr None
    \<longrightarrow> unify_vars (Suc (Suc d)) (Some a) (Some b) (h, s) = Inl AssertionError)
   \<and> (repr h c t \<and> size t + 2 \<le> d' \<longrightarrow> unify_vars d' (Some c) (Some c) (h, s) = Inr (h, s))"
  using unify_vars_self [of h c t d' s] by auto

theorem unify_vars_base_conflict_and_self_witness:
  "unify_vars (Suc (Suc 0)) (Some 0) (Some 1)
       ([Str ''int'', Str ''float'', Lst [Some 0, Some 1]], [])
     = Inl AssertionError
   \<and> unify_vars 1000 (Some 2) (Some 2) ([Str ''int'', Str ''float'', Lst [Some 0, Some 1]], [])
     = Inr ([Str ''int'', Str ''float'', Lst [Some 0, Some 1]], [])"
proof -
  let ?h = "[Str ''int'', Str ''float'', Lst [Some 0, Some 1]]"
  have c: "cell_at ?h 0 = Str ''int''" "cell_at ?h 1 = Str ''float''"
    by (simp_all add: cell_at_def)
  have g: "dict_get (Suc 0) ?h [] 0 = Inr None" "dict_get (Suc 0) ?h [] 1 = Inr None"
    by simp_all
  have r: "repr ?h 2 (Tuple [Atom ''int'', Atom ''float''])"
    by (simp add: cell_at_def)
  have sz: "size (Tuple [Atom ''int'', Atom ''float'']) + 2 \<le> 1000" by simp
  from unify_vars_base_conflict_and_self [where h = ?h
      and a = 0 and b = 1 and x = "''int''" and y = "''float''" and d = 0 and s = "[]"
      and c = 2 and t = "Tuple [Atom ''int'', Atom ''float'']" and d' = 1000] c g r sz
  show ?thesis by simp
qed

section \<open>Properties of the specialization\<close>

text \<open>What the final assertion of \<open>apply_with_type\<close> establishes when it passes.\<close>

lemma all_values_base_True:
  "all_values_base d h s ks = Inr True \<Longrightarrow> k \<in> set ks \<Longrightarrow>
     \<exists>v. dict_get d h s k = Inr (Some v) \<and> is_base_type d h v = Inr True"
proof (induction ks)
  case Nil
  then show ?case by simp
next
  case (Cons a ks)
  from Cons.prems(1) obtain v where
    g: "dict_get d h s a = Inr (Some v)" and b: "is_base_type d h v = Inr True"
    and r: "all_values_base d h s ks = Inr True"
    by (auto simp: bindE_def split: sum.splits option.splits if_splits)
  show ?case
  proof (cases "k = a")
    case True
    with g b show ?thesis by blast
  next
    case False
    with Cons.prems(2) have "k \<in> set ks" by simp
    from Cons.IH [OF r this] show ?thesis .
  qed
qed

text \<open>
  Claim C1 as stated fails: the entry function \<open>f\<close> has the type \<open>(Unknown-x, Unknown-1)\<close>
  and is applied to \<open>(int, float)\<close>. The object returned (address \<open>8\<close>) is the whole
  resolved tuple \<open>(int, float)\<close>, whose elements are the objects \<open>9\<close> and \<open>10\<close>; the
  return-type slot \<open>float\<close> is the object \<open>10\<close>.
\<close>

theorem apply_with_type_counterexample:
  "apply_with_type 1000
     \<lparr> node = AstNode Defun (Ops []), name = ''f'', params_list = [''x''],
       body = AstNode String1 (Ops [Tok ''x'']), intermediate_types = [(1, 4)],
       my_type = Some 0 \<rparr> 7
     [Str ''f'', Str ''f'', Str ''Unknown-x'', Str ''Unknown-1'', Lst [Some 2, Some 3],
      Str ''int'', Str ''float'', Lst [Some 5, Some 6]]
   = Inr (8, [(11, 8), (13, 12), (15, 14)],
      [Str ''f'', Str ''f'', Str ''Unknown-x'', Str ''Unknown-1'', Lst [Some 2, Some 3],
       Str ''int'', Str ''float'', Lst [Some 5, Some 6], Lst [Some 9, Some 10], Str ''int'',
       Str ''float'', Str ''f'', Str ''int'', Str ''Unknown-x'', Str ''float'',
       Str ''Unknown-1''])"
  by code_simp

text \<open>
  Claim C1, amended. When \<open>apply_with_type\<close> returns, the invocation type is a tuple whose
  arity is the length of the type mapped to the entry function's own type, the returned
  substitution map is the result of unifying the two in a copy of the function's map
  and simplifying it, every key of it looks up a base-resolved type, and the object
  returned is the type mapped to the entry function's own type: the whole resolved
  tuple, not its return-type slot.
\<close>

theorem apply_with_type_result:
  assumes "apply_with_type d self args h = Inr (result, solution, h')"
  shows "(\<exists>types mine copied h1 m h2.
            cell_at h args = Lst types
          \<and> dict_item d h (intermediate_types self) (my_type self) = Inr mine
          \<and> length types = type_len (cell_at h mine)
          \<and> deepcopy_dict d (intermediate_types self) ([], h, Map.empty) = Inr (copied, h1, m)
          \<and> unify_vars d (my_type self) (Some args) (h1, copied) = Inr (h2, solution)
          \<and> simplify_unification d solution h2 = Inr h')
       \<and> (\<forall>k \<in> set (map fst solution).
            \<exists>v. dict_get d h' solution k = Inr (Some v) \<and> is_base_type d h' v = Inr True)
       \<and> dict_item d h' solution (my_type self) = Inr result"
proof -
  from assms obtain types where t: "cell_at h args = Lst types"
    by (cases "cell_at h args") (auto simp: apply_with_type_def)
  from assms t obtain mine where
    m: "dict_item d h (intermediate_types self) (my_type self) = Inr mine"
    by (cases "dict_item d h (intermediate_types self) (my_type self)")
       (auto simp: apply_with_type_def)
  from assms t m have len: "length types = type_len (cell_at h mine)"
    by (auto simp: apply_with_type_def split: if_splits)
  from assms t m len obtain copied h1 mm where
    c: "deepcopy_dict d (intermediate_types self) ([], h, Map.empty) = Inr (copied, h1, mm)"
    by (cases "deepcopy_dict d (intermediate_types self) ([], h, Map.empty)")
       (auto simp: apply_with_type_def)
  from assms t m len c obtain h2 sol where
    u: "unify_vars d (my_type self) (Some args) (h1, copied) = Inr (h2, sol)"
    by (cases "unify_vars d (my_type self) (Some args) (h1, copied)")
       (auto simp: apply_with_type_def)
  from assms t m len c u obtain h3 where
    s: "simplify_unification d sol h2 = Inr h3"
    by (cases "simplify_unification d sol h2") (auto simp: apply_with_type_def)
  from assms t m len c u s obtain ok where
    a: "all_values_base d h3 sol (map fst sol) = Inr ok"
    by (cases "all_values_base d h3 sol (map fst sol)") (auto simp: apply_with_type_def)
  from assms t m len c u s a have ok: "ok"
    by (auto simp: apply_with_type_def split: if_splits)
  from assms t m len c u s a ok obtain r where
    r: "dict_item d h3 sol (my_type self) = Inr r"
    by (cases "dict_item d h3 sol (my_type self)") (auto simp: apply_with_type_def)
  from assms t m len c u s a ok r have eqs: "result = r" "solution = sol" "h' = h3"
    by (auto simp: apply_with_type_def)
  from a ok eqs have "all_values_base d h' solution (map fst solution) = Inr True" by simp
  then have "\<forall>k \<in> set (map fst solution).
      \<exists>v. dict_get d h' solution k = Inr (Some v) \<and> is_base_type d h' v = Inr True"
    using all_values_base_True by blast
  with t m len c u s r eqs show ?thesis by blast
qed

theorem apply_with_type_result_witness:
  "apply_with_type 1000
     \<lparr> node = AstNode Defun (Ops []), name = ''f'', params_list = [''x''],
       body = AstNode String1 (Ops [Tok ''x'']), intermediate_types = [(1, 4)],
       my_type = Some 0 \<rparr> 7
     [Str ''f'', Str ''f'', Str ''Unknown-x'', Str ''Unknown-1'', Lst [Some 2, Some 3],
      Str ''int'', Str ''float'', Lst [Some 5, Some 6]]
   = Inr (8, [(11, 8), (13, 12), (15, 14)],
      [Str ''f'', Str ''f'', Str ''Unknown-x'', Str ''Unknown-1'', Lst [Some 2, Some 3],
       Str ''int'', Str ''float'', Lst [Some 5, Some 6], Lst [Some 9, Some 10], Str ''int'',
       Str ''float'', Str ''f'', Str ''int'', Str ''Unknown-x'', Str ''float'',
       Str ''Unknown-1''])
   \<and> dict_item 1000
      [Str ''f'', Str ''f'', Str ''Unknown-x'', Str ''Unknown-1'', Lst [Some 2, Some 3],
       Str ''int'', Str ''float'', Lst [Some 5, Some 6], Lst [Some 9, Some 10], Str ''int'',
       Str ''float'', Str ''f'', Str ''int'', Str ''Unknown-x'', Str ''float'',
       Str ''Unknown-1'']
      [(11, 8), (13, 12), (15, 14)] (Some 0) = Inr 8"
proof -
  have e: "apply_with_type 1000
     \<lparr> node = AstNode Defun (Ops []), name = ''f'', params_list = [''x''],
       body = AstNode String1 (Ops [Tok ''x'']), intermediate_types = [(1, 4)],
       my_type = Some 0 \<rparr> 7
     [Str ''f'', Str ''f'', Str ''Unknown-x'', Str ''Unknown-1'', Lst [Some 2, Some 3],
      Str ''int'', Str ''float'', Lst [Some 5, Some 6]]
   = Inr (8, [(11, 8), (13, 12), (15, 14)],
      [Str ''f'', Str ''f'', Str ''Unknown-x'', Str ''Unknown-1'', Lst [Some 2, Some 3],
       Str ''int'', Str ''float'', Lst [Some 5, Some 6], Lst [Some 9, Some 10], Str ''int'',
       Str ''float'', Str ''f'', Str ''int'', Str ''Unknown-x'', Str ''float'',
       Str ''Unknown-1''])"
    by code_simp
  from apply_with_type_result [OF e] e show ?thesis by simp
qed

section \<open>Properties of the constraint generation\<close>

text \<open>
  Claim C2, at a multiply node. The case of \<open>type_annotator\<close> for \<open>Add\<close> and \<open>Mult\<close>
  builds the constraint with \<open>Type("Operator+")\<close> for both, so a multiply node is
  annotated exactly as the add node with the same operands; for \<open>(* 2 x)\<close> the one
  constraint equates the type named \<open>Operator+\<close> (object \<open>4\<close>) with the tuple of the
  operand types and the fresh result variable \<open>Unknown-1\<close> (object \<open>2\<close>), which is
  returned. The type named \<open>Operator*\<close> does not occur.
\<close>

theorem type_annotator_mult_operator_plus:
  "type_annotator (Sub (AstNode Mult (Ops [lhs, rhs]))) st
     = type_annotator (Sub (AstNode Add (Ops [lhs, rhs]))) st
   \<and> type_annotator
       (Sub (AstNode Mult (Ops [Sub (AstNode NumberConstant (Ops [Tok ''2''])),
                                Sub (AstNode String1 (Ops [Tok ''x'']))])))
       ([], 0, [])
     = Inr (Some 2,
            [Str ''int'', Str ''Unknown-x'', Str ''Unknown-1'', Lst [Some 0, Some 1, Some 2],
             Str ''Operator+''],
            1, [(Some 4, Some 3)])"
proof
  show "type_annotator (Sub (AstNode Mult (Ops [lhs, rhs]))) st
     = type_annotator (Sub (AstNode Add (Ops [lhs, rhs]))) st"
    by simp
  show "type_annotator
       (Sub (AstNode Mult (Ops [Sub (AstNode NumberConstant (Ops [Tok ''2''])),
                                Sub (AstNode String1 (Ops [Tok ''x'']))])))
       ([], 0, [])
     = Inr (Some 2,
            [Str ''int'', Str ''Unknown-x'', Str ''Unknown-1'', Lst [Some 0, Some 1, Some 2],
             Str ''Operator+''],
            1, [(Some 4, Some 3)])"
    by code_simp
qed

section \<open>Properties of the call resolution\<close>

text \<open>
  When every name the resolver reaches is in the table, it returns the tree with the
  calls replaced; otherwise the lookup in the table raises \<open>KeyError\<close>.
\<close>

lemma resolver_known:
  "set (reachable_callees a) \<subseteq> dom m \<Longrightarrow> \<exists>a'. recursive_resolver m a = Inr a' \<and> replaced m a a'"
  "set (concat (map reachable_callees xs)) \<subseteq> dom m
     \<Longrightarrow> \<exists>xs'. resolve_each m xs = Inr xs' \<and> list_all2 (replaced m) xs xs'"
proof (induction m a and m xs rule: recursive_resolver_resolve_each.induct)
  case (2 m fn params)
  then show ?case by (auto simp: dom_def)
qed auto

lemma resolver_unknown:
  "\<not> set (reachable_callees a) \<subseteq> dom m \<Longrightarrow> recursive_resolver m a = Inl KeyError"
  "\<not> set (concat (map reachable_callees xs)) \<subseteq> dom m \<Longrightarrow> resolve_each m xs = Inl KeyError"
proof (induction m a and m xs rule: recursive_resolver_resolve_each.induct)
  case (1 m n ps b rt)
  then show ?case by simp
next
  case (2 m fn params)
  show ?case
  proof (cases "resolve_each m params")
    case (Inl e)
    with 2 show ?thesis by (cases "set (concat (map reachable_callees params)) \<subseteq> dom m")
        (use resolver_known(2) [of params m] in auto)
  next
    case (Inr ys)
    with 2 have "set (concat (map reachable_callees params)) \<subseteq> dom m" by auto
    with "2.prems" have "m fn = None" by (auto simp: dom_def)
    with Inr show ?thesis by simp
  qed
next
  case (3 m programs)
  then show ?case by simp
next
  case (6 m x xs)
  show ?case
  proof (cases "set (reachable_callees x) \<subseteq> dom m")
    case False
    with 6 show ?thesis by simp
  next
    case True
    with "6.prems" have nx: "\<not> set (concat (map reachable_callees xs)) \<subseteq> dom m" by auto
    from resolver_known(1) [OF True] obtain y where y: "recursive_resolver m x = Inr y" by blast
    with 6 nx show ?thesis by simp
  qed
qed auto

lemma resolver_lowered:
  "lowered a \<Longrightarrow> recursive_resolver m a = Inr a' \<Longrightarrow> callees a' = []"
  "list_all lowered xs \<Longrightarrow> resolve_each m xs = Inr xs' \<Longrightarrow> concat (map callees xs') = []"
proof (induction m a and m xs arbitrary: a' and xs' rule: recursive_resolver_resolve_each.induct)
  case (1 m n ps b rt)
  then show ?case by (auto simp: bindE_def split: sum.splits)
next
  case (2 m fn params)
  then show ?case by (auto simp: bindE_def split: sum.splits option.splits)
next
  case (3 m programs)
  then show ?case by (auto simp: bindE_def split: sum.splits)
next
  case (6 m x xs)
  then show ?case by (auto simp: bindE_def split: sum.splits)
qed auto

text \<open>The table maps a name to the position of a definition of that name.\<close>

lemma function_name_map_typed:
  "list_all is_typed fs \<Longrightarrow>
     \<exists>m. function_name_map fs i m0 = Inr m
       \<and> (\<forall>n j. m n = Some j \<longrightarrow>
             m0 n = Some j \<or> (i \<le> j \<and> j < i + length fs
                \<and> (\<exists>ps b rt. fs ! (j - i) = TypedFnDef n ps b rt)))"
proof (induction fs arbitrary: i m0)
  case Nil
  then show ?case by simp
next
  case (Cons f fs)
  from Cons.prems obtain n0 ps0 b0 rt0 where f: "f = TypedFnDef n0 ps0 b0 rt0"
    by (cases f) auto
  from Cons.prems have "list_all is_typed fs" by simp
  from Cons.IH [OF this, of "Suc i" "m0(n0 \<mapsto> i)"] obtain m where
    m: "function_name_map fs (Suc i) (m0(n0 \<mapsto> i)) = Inr m"
    and inv: "\<forall>n j. m n = Some j \<longrightarrow>
             (m0(n0 \<mapsto> i)) n = Some j \<or> (Suc i \<le> j \<and> j < Suc i + length fs
                \<and> (\<exists>ps b rt. fs ! (j - Suc i) = TypedFnDef n ps b rt))"
    by blast
  have "\<forall>n j. m n = Some j \<longrightarrow>
             m0 n = Some j \<or> (i \<le> j \<and> j < i + length (f # fs)
                \<and> (\<exists>ps b rt. (f # fs) ! (j - i) = TypedFnDef n ps b rt))"
  proof (intro allI impI)
    fix n j assume "m n = Some j"
    with inv have "(m0(n0 \<mapsto> i)) n = Some j \<or> (Suc i \<le> j \<and> j < Suc i + length fs
                \<and> (\<exists>ps b rt. fs ! (j - Suc i) = TypedFnDef n ps b rt))" by blast
    then show "m0 n = Some j \<or> (i \<le> j \<and> j < i + length (f # fs)
                \<and> (\<exists>ps b rt. (f # fs) ! (j - i) = TypedFnDef n ps b rt))"
    proof
      assume a: "(m0(n0 \<mapsto> i)) n = Some j"
      show ?thesis
      proof (cases "n = n0")
        case True
        with a have "j = i" by simp
        with True f show ?thesis by simp
      next
        case False
        with a show ?thesis by simp
      qed
    next
      assume a: "Suc i \<le> j \<and> j < Suc i + length fs
                \<and> (\<exists>ps b rt. fs ! (j - Suc i) = TypedFnDef n ps b rt)"
      then have "Suc i \<le> j" by simp
      then have "j - i = Suc (j - Suc i)" by arith
      with a show ?thesis by simp
    qed
  qed
  with m f show ?case by simp
qed

text \<open>
  Claim C6. For a list of typed definitions, \<open>resolve_all_function_calls\<close> builds the
  table from names to definitions (every entry refers to a definition of that name in
  the list). When the callee name of every unresolved call it reaches (through bodies,
  call arguments and sequence elements) has an entry, it returns the definitions with
  each of these calls replaced by a direct call that refers to the table's definition,
  and for definitions that come from the lowering pass no unresolved call is left
  anywhere. When some such callee name has no entry, it fails with \<open>KeyError\<close>: no call
  is dropped.
\<close>

theorem resolve_all_function_calls_closed:
  assumes "list_all is_typed fs"
  shows "\<exists>m. function_name_map fs 0 Map.empty = Inr m
      \<and> (\<forall>n j. m n = Some j \<longrightarrow> j < length fs \<and> (\<exists>ps b rt. fs ! j = TypedFnDef n ps b rt))
      \<and> (set (concat (map reachable_callees fs)) \<subseteq> dom m \<longrightarrow>
           (\<exists>fs'. resolve_all_function_calls fs = Inr fs' \<and> list_all2 (replaced m) fs fs'
              \<and> (list_all lowered fs \<longrightarrow> concat (map callees fs') = [])))
      \<and> (\<not> set (concat (map reachable_callees fs)) \<subseteq> dom m \<longrightarrow>
           resolve_all_function_calls fs = Inl KeyError)"
proof -
  from function_name_map_typed [OF assms, of 0 Map.empty] obtain m where
    m: "function_name_map fs 0 Map.empty = Inr m"
    and inv: "\<forall>n j. m n = Some j \<longrightarrow> j < length fs \<and> (\<exists>ps b rt. fs ! j = TypedFnDef n ps b rt)"
    by auto
  have r: "resolve_all_function_calls fs = resolve_each m fs"
    using m by (simp add: resolve_all_function_calls_def)
  have known: "set (concat (map reachable_callees fs)) \<subseteq> dom m \<longrightarrow>
           (\<exists>fs'. resolve_all_function_calls fs = Inr fs' \<and> list_all2 (replaced m) fs fs'
              \<and> (list_all lowered fs \<longrightarrow> concat (map callees fs') = []))"
  proof
    assume "set (concat (map reachable_callees fs)) \<subseteq> dom m"
    from resolver_known(2) [OF this] obtain fs' where
      fs': "resolve_each m fs = Inr fs'" "list_all2 (replaced m) fs fs'" by blast
    with resolver_lowered(2) [of fs m fs'] r
    show "\<exists>fs'. resolve_all_function_calls fs = Inr fs' \<and> list_all2 (replaced m) fs fs'
              \<and> (list_all lowered fs \<longrightarrow> concat (map callees fs') = [])" by auto
  qed
  have unknown: "\<not> set (concat (map reachable_callees fs)) \<subseteq> dom m \<longrightarrow>
           resolve_all_function_calls fs = Inl KeyError"
    using resolver_unknown(2) [of fs m] r by simp
  from m inv known unknown show ?thesis by blast
qed

theorem resolve_all_function_calls_closed_witness:
  "list_all is_typed
     [TypedFnDef ''main'' [] (ProgN [UnresolvedFnApp ''f'' [ConstantLoad 0 ''1'']]) 1,
      TypedFnDef ''f'' [VariableDef ''x'' 2] (UnresolvedVariableLoad ''x'') 3]
   \<and> (\<exists>m. function_name_map
       [TypedFnDef ''main'' [] (ProgN [UnresolvedFnApp ''f'' [ConstantLoad 0 ''1'']]) 1,
        TypedFnDef ''f'' [VariableDef ''x'' 2] (UnresolvedVariableLoad ''x'') 3] 0 Map.empty
        = Inr m \<and> m ''f'' = Some 1)
   \<and> resolve_all_function_calls
     [TypedFnDef ''main'' [] (ProgN [UnresolvedFnApp ''f'' [ConstantLoad 0 ''1'']]) 1,
      TypedFnDef ''f'' [VariableDef ''x'' 2] (UnresolvedVariableLoad ''x'') 3]
     = Inr [TypedFnDef ''main'' [] (ProgN [FunctionApplication 1 [ConstantLoad 0 ''1'']]) 1,
            TypedFnDef ''f'' [VariableDef ''x'' 2] (UnresolvedVariableLoad ''x'') 3]
   \<and> resolve_all_function_calls
     [TypedFnDef ''main'' [] (UnresolvedFnApp ''undefined_fn'' []) 1]
     = Inl KeyError"
proof -
  let ?fs = "[TypedFnDef ''main'' [] (ProgN [UnresolvedFnApp ''f'' [ConstantLoad 0 ''1'']]) 1,
      TypedFnDef ''f'' [VariableDef ''x'' 2] (UnresolvedVariableLoad ''x'') 3]"
  let ?gs = "[TypedFnDef ''main'' [] (UnresolvedFnApp ''undefined_fn'' []) 1]"
  have t: "list_all is_typed ?fs" "list_all is_typed ?gs" by simp_all
  from resolve_all_function_calls_closed [OF t(2)]
  have u: "resolve_all_function_calls ?gs = Inl KeyError"
    by (auto simp: dom_def split: if_splits)
  have m: "function_name_map ?fs 0 Map.empty = Inr [''main'' \<mapsto> 0, ''f'' \<mapsto> 1]"
    by simp
  have r: "resolve_all_function_calls ?fs =
      Inr [TypedFnDef ''main'' [] (ProgN [FunctionApplication 1 [ConstantLoad 0 ''1'']]) 1,
            TypedFnDef ''f'' [VariableDef ''x'' 2] (UnresolvedVariableLoad ''x'') 3]"
    by (simp add: resolve_all_function_calls_def)
  from t u m r show ?thesis by simp
qed

end
